theory Spec2Isabelle
  imports Main "HOL-Library.AList" "HOL-Library.Sublist"
begin

section \<open>Data model of the Orbit import pod\<close>

text \<open>
  Front-matter values are JavaScript values read from YAML. Only primitive values are
  modelled; \<open>JUndefined\<close> is what reading a missing key yields.
\<close>

datatype jsval = JUndefined | JNull | JStr string | JNum int | JBool bool

text \<open>\<^verbatim>\<open>enum SocialKeys\<close>, in declaration order.\<close>

datatype SocialKeys = github | discord | linkedin | twitter | email

text \<open>\<^verbatim>\<open>Object.values(SocialKeys)\<close>: the members in declaration order.\<close>

definition SocialKeys_values :: "SocialKeys list" where
  "SocialKeys_values = [github, discord, linkedin, twitter, email]"

text \<open>
  \<^verbatim>\<open>OrbitMemberData\<close>. The social attributes and \<open>name\<close> are \<^verbatim>\<open>null | string\<close>
  (\<open>None\<close> is \<^verbatim>\<open>null\<close>); \<open>socials\<close> is indexed by key as
  \<^verbatim>\<open>member.attributes[key]\<close> is. \<open>orbit_attrs\<close> holds the remaining attributes
  that \<^verbatim>\<open>membersToNotes\<close> copies into the \<open>orbit\<close> object.
\<close>

record attributes =
  attr_id :: string
  name :: "string option"
  socials :: "SocialKeys \<Rightarrow> string option"
  orbit_attrs :: "(string \<times> jsval) list"

record OrbitMemberData =
  member_id :: string
  attributes :: attributes

text \<open>
  A JavaScript object with social keys: an association list in insertion order.
  Reading a key that is not there gives \<^verbatim>\<open>undefined\<close>; assignment replaces the
  value of a key that is there and appends one that is not.
\<close>

type_synonym SocialData = "(SocialKeys \<times> jsval) list"

definition bag_get :: "SocialData \<Rightarrow> SocialKeys \<Rightarrow> jsval" where
  "bag_get bag key = (case map_of bag key of None \<Rightarrow> JUndefined | Some v \<Rightarrow> v)"

definition bag_set :: "SocialKeys \<Rightarrow> jsval \<Rightarrow> SocialData \<Rightarrow> SocialData" where
  "bag_set key v bag = AList.update key v bag"

text \<open>A \<^verbatim>\<open>string | null\<close> attribute as a JavaScript value.\<close>

definition attr_val :: "string option \<Rightarrow> jsval" where
  "attr_val a = (case a of None \<Rightarrow> JNull | Some s \<Rightarrow> JStr s)"

text \<open>
  \<^verbatim>\<open>note.custom\<close>, the custom front matter. \<open>social\<close> is \<open>None\<close> when the key is
  missing or its value is falsy (what \<^verbatim>\<open>!note.custom.social\<close> tests); \<open>other\<close> holds
  the front-matter keys this pod does not interpret.
\<close>

record custom =
  social :: "SocialData option"
  custom_orbitId :: "string option"
  orbit :: "(string \<times> jsval) list option"
  other :: "(string \<times> jsval) list"

text \<open>
  \<^verbatim>\<open>NoteProps\<close>, restricted to the properties the pod reads or writes.
  \<open>custom\<close> is optional in \<^verbatim>\<open>DNodeProps\<close>.
\<close>

record NoteProps =
  fname :: string
  body :: string
  custom :: "custom option"

record Conflict =
  conflictNote :: NoteProps
  conflictEntry :: NoteProps
  conflictData :: "SocialKeys list"

datatype ERROR_SEVERITY = MINOR | FATAL

text \<open>
  What a call can throw: the \<^verbatim>\<open>DendronError\<close> built by the fetcher, the rejection
  of an \<^verbatim>\<open>axios.get\<close> promise (transport failure, or a status outside 2xx), and
  the \<^verbatim>\<open>TypeError\<close> of reading a property of \<^verbatim>\<open>undefined\<close>.
\<close>

datatype error =
    DendronError (message: string) (severity: ERROR_SEVERITY)
  | AxiosNetworkError string
  | AxiosStatusError nat
  | TypeError

record OrbitImportPodConfig =
  workspaceSlug :: string
  token :: string
  orbitId :: "string option"
  overwriteAll :: bool
  destName :: "string option"
  frontmatter :: "(string \<times> jsval) list"

section \<open>OrbitUtils\<close>

text \<open>\<^verbatim>\<open>a || b\<close> on \<^verbatim>\<open>string | null | undefined\<close>: \<open>a\<close> when it is a non-empty string.\<close>

definition js_or :: "string option \<Rightarrow> string option \<Rightarrow> string option" where
  "js_or a b = (case a of None \<Rightarrow> b | Some s \<Rightarrow> if s \<noteq> [] then Some s else b)"

text \<open>The last \<^verbatim>\<open>||\<close> of a chain, whose right operand is a string.\<close>

definition js_or_str :: "string option \<Rightarrow> string \<Rightarrow> string" where
  "js_or_str a b = (case a of None \<Rightarrow> b | Some s \<Rightarrow> if s \<noteq> [] then s else b)"

text \<open>\<^verbatim>\<open>email.split("@")[0]\<close>: the characters before the first \<open>@\<close>.\<close>

definition getNameFromEmail :: "string option \<Rightarrow> string option" where
  "getNameFromEmail em =
     (case em of
        None \<Rightarrow> None
      | Some e \<Rightarrow> if e \<noteq> [] then Some (takeWhile (\<lambda>c. c \<noteq> CHR ''@'') e) else None)"

definition getSocialAttributes :: "OrbitMemberData \<Rightarrow> SocialData" where
  "getSocialAttributes member =
     fold (\<lambda>k out. bag_set k (attr_val (socials (attributes member) k)) out) SocialKeys_values []"

text \<open>
  \<^verbatim>\<open>DNodeUtils.cleanFname\<close> is not among the sources; \<open>cleanName\<close> takes it as the
  parameter \<open>cleanFname\<close>.
\<close>

definition cleanName :: "(string \<Rightarrow> string) \<Rightarrow> OrbitMemberData \<Rightarrow> string" where
  "cleanName cleanFname member =
     (let a = attributes member;
          noteName =
            js_or_str
              (js_or (js_or (js_or (js_or (name a) (socials a github)) (socials a discord))
                        (socials a twitter))
                 (getNameFromEmail (socials a email)))
              (member_id member)
      in cleanFname noteName)"

text \<open>
  The resolver in the words of the specification: the first non-empty value among display
  name, github, discord, twitter and the email's local part, else the external identifier.
\<close>

definition local_part :: "string \<Rightarrow> string" where
  "local_part e = takeWhile (\<lambda>c. c \<noteq> CHR ''@'') e"

fun first_nonempty :: "string option list \<Rightarrow> string \<Rightarrow> string" where
  "first_nonempty [] fallback = fallback"
| "first_nonempty (None # xs) fallback = first_nonempty xs fallback"
| "first_nonempty (Some s # xs) fallback = (if s \<noteq> [] then s else first_nonempty xs fallback)"

definition resolveName_spec :: "OrbitMemberData \<Rightarrow> string" where
  "resolveName_spec member =
     (let a = attributes member in
      first_nonempty
        [name a, socials a github, socials a discord, socials a twitter,
         map_option local_part (socials a email)]
        (member_id member))"

section \<open>Conflict detection\<close>

text \<open>The node's social bag, when it has one.\<close>

definition social_of :: "NoteProps \<Rightarrow> SocialData option" where
  "social_of n = (case custom n of None \<Rightarrow> None | Some c \<Rightarrow> social c)"

definition getConflictedData :: "NoteProps \<Rightarrow> OrbitMemberData \<Rightarrow> SocialKeys list" where
  "getConflictedData n orbitMember =
     (case custom n of
        None \<Rightarrow> []
      | Some c \<Rightarrow>
          (case social c of
             None \<Rightarrow> []
           | Some bag \<Rightarrow>
               filter
                 (\<lambda>key. let noteSocialValue = bag_get bag key in
                    (\<not> (noteSocialValue = JNull) \<and> \<not> (noteSocialValue = JUndefined)) \<and>
                    attr_val (socials (attributes orbitMember) key) \<noteq> bag_get bag key)
                 SocialKeys_values))"

section \<open>The document graph store\<close>

text \<open>
  Modelled from the spec: the engine (\<^verbatim>\<open>DEngineClient\<close>), \<^verbatim>\<open>FileUtils.getNoteByFile\<close>
  and \<^verbatim>\<open>NoteUtils.getNoteByFnameV5\<close> are not among the sources. The store contract of
  the specification is \<open>lookupByName\<close>, \<open>bulkCreate\<close> and \<open>update\<close> with
  last-writer-wins per node name: the store is a map from node names to nodes, and every
  call that commits is recorded in \<open>calls\<close>, in the order it is issued. A commit
  stores the node as it is when the call is issued, and the store changes through commits
  only. The lookups of a run return one node object per name: a change that the pod makes
  to such an object in place is seen by every holder of the object (see
  \<open>update_step\<close>), and reaches the store with the next commit of the object.
\<close>

datatype engine_call = WriteNote NoteProps | BulkAddNotes "NoteProps list"

record DEngineClient =
  fastMode :: bool
  engine_notes :: "string \<Rightarrow> NoteProps option"
  calls :: "engine_call list"

definition getNoteByFile :: "DEngineClient \<Rightarrow> string \<Rightarrow> NoteProps option" where
  "getNoteByFile engine fname' = engine_notes engine fname'"

definition getNoteByFnameV5 :: "DEngineClient \<Rightarrow> string \<Rightarrow> NoteProps option" where
  "getNoteByFnameV5 engine fname' = engine_notes engine fname'"

text \<open>Storing a node under its name: the last writer wins.\<close>

definition store_put ::
  "NoteProps \<Rightarrow> (string \<Rightarrow> NoteProps option) \<Rightarrow> (string \<Rightarrow> NoteProps option)" where
  "store_put n store = store(fname n \<mapsto> n)"

text \<open>\<^verbatim>\<open>engine.writeNote(note, { updateExisting: true })\<close>.\<close>

definition writeNote :: "NoteProps \<Rightarrow> DEngineClient \<Rightarrow> DEngineClient" where
  "writeNote n engine =
     engine\<lparr>engine_notes := store_put n (engine_notes engine),
            calls := calls engine @ [WriteNote n]\<rparr>"

text \<open>\<^verbatim>\<open>engine.bulkAddNotes({ notes })\<close>.\<close>

definition bulkAddNotes :: "NoteProps list \<Rightarrow> DEngineClient \<Rightarrow> DEngineClient" where
  "bulkAddNotes ns engine =
     engine\<lparr>engine_notes := fold store_put ns (engine_notes engine),
            calls := calls engine @ [BulkAddNotes ns]\<rparr>"

text \<open>
  Modelled from the spec: \<^verbatim>\<open>NoteUtils.create\<close> is not among the sources; it builds a
  node from the name, the custom front matter and the body it is given.
\<close>

definition NoteUtils_create :: "string \<Rightarrow> custom \<Rightarrow> string \<Rightarrow> NoteProps" where
  "NoteUtils_create fname' custom' body' = \<lparr>fname = fname', body = body', custom = Some custom'\<rparr>"

section \<open>Updating a note without conflicts\<close>

text \<open>
  The value a note stores for a social field, \<^verbatim>\<open>undefined\<close> when the note has no
  social bag or the bag has no such key.
\<close>

definition stored :: "NoteProps \<Rightarrow> SocialKeys \<Rightarrow> jsval" where
  "stored n key = (case social_of n of None \<Rightarrow> JUndefined | Some bag \<Rightarrow> bag_get bag key)"

text \<open>The body of the \<^verbatim>\<open>customKeys.forEach\<close> loop of \<^verbatim>\<open>updateNoteData\<close>.\<close>

definition adopt :: "attributes \<Rightarrow> SocialKeys \<Rightarrow> SocialData \<times> bool \<Rightarrow> SocialData \<times> bool" where
  "adopt social' key = (\<lambda>(bag, shouldUpdate).
     if bag_get bag key = JNull \<and> socials social' key \<noteq> None
     then (bag_set key (attr_val (socials social' key)) bag, True)
     else (bag, shouldUpdate))"

text \<open>
  \<^verbatim>\<open>updateNoteData\<close> mutates the note it is given; the model returns the note as it is
  after the call. Reading \<^verbatim>\<open>note.custom.social\<close> of a note without custom front matter
  throws.
\<close>

definition updateNoteData ::
  "NoteProps \<Rightarrow> OrbitMemberData \<Rightarrow> DEngineClient \<Rightarrow> (error + NoteProps) \<times> DEngineClient" where
  "updateNoteData n orbitMember engine =
     (case custom n of
        None \<Rightarrow> (Inl TypeError, engine)
      | Some c \<Rightarrow>
          (let bag0 = (case social c of None \<Rightarrow> [] | Some b \<Rightarrow> b);
               (bag, shouldUpdate) =
                 fold (adopt (attributes orbitMember)) SocialKeys_values (bag0, False);
               n' = n\<lparr>custom := Some (c\<lparr>social := Some bag\<rparr>)\<rparr>
           in if shouldUpdate then (Inr n', writeNote n' engine) else (Inr n', engine)))"

text \<open>
  A note is in step with a record when it has custom front matter and every social field
  it stores is either undefined or the record's value.
\<close>

definition synced :: "NoteProps \<Rightarrow> OrbitMemberData \<Rightarrow> bool" where
  "synced n m \<longleftrightarrow>
     custom n \<noteq> None \<and>
     list_all (\<lambda>key. stored n key = JUndefined \<or>
                      stored n key = attr_val (socials (attributes m) key)) SocialKeys_values"


section \<open>The remote fetcher\<close>

text \<open>
  The remote member directory answers a request (link, authorization header) in a state
  \<open>'w\<close> of the outside world, which the request may change. \<^verbatim>\<open>axios.get\<close> rejects on
  a transport failure and on a status outside 200..299, and resolves to the response
  otherwise.
\<close>

datatype 'a http_result = TransportFailure string | HttpResponse nat 'a

record members_page =
  data :: "OrbitMemberData list"
  links_next :: "string option"

definition axios_get ::
  "('w \<Rightarrow> string \<Rightarrow> string \<Rightarrow> 'a http_result \<times> 'w) \<Rightarrow> string \<Rightarrow> string \<Rightarrow> 'w
     \<Rightarrow> (error + 'a) \<times> 'w" where
  "axios_get http link authorization w =
     (case http w link authorization of
        (TransportFailure cause, w') \<Rightarrow> (Inl (AxiosNetworkError cause), w')
      | (HttpResponse status response, w') \<Rightarrow>
          if 200 \<le> status \<and> status < 300 then (Inr response, w')
          else (Inl (AxiosStatusError status), w'))"

text \<open>
  The collaborators that are not among the sources, taken as parameters: the two remote
  endpoints, \<^verbatim>\<open>stringifyError\<close>, \<^verbatim>\<open>DNodeUtils.cleanFname\<close>, the decision source
  \<^verbatim>\<open>handleConflict\<close> with its own state \<open>'d\<close>, and the clock (the day as
  \<^verbatim>\<open>y.MM.dd\<close> and the ISO time stamp of the run).
\<close>

datatype MergeConflictOptions = OVERWRITE_LOCAL | SKIP | SKIP_ALL

record ('w, 'd) env =
  http_members :: "'w \<Rightarrow> string \<Rightarrow> string \<Rightarrow> members_page http_result \<times> 'w"
  http_member :: "'w \<Rightarrow> string \<Rightarrow> string \<Rightarrow> OrbitMemberData http_result \<times> 'w"
  stringifyError :: "error \<Rightarrow> string"
  cleanFname :: "string \<Rightarrow> string"
  handleConflict :: "Conflict option \<Rightarrow> 'd \<Rightarrow> MergeConflictOptions option \<times> 'd"
  today :: string
  nowISO :: string

text \<open>The link a page is requested from: the default listing when the cursor is empty.\<close>

definition page_link :: "string \<Rightarrow> string \<Rightarrow> string" where
  "page_link workspaceSlug' link =
     (if length link > 0 then link
      else ''https://app.orbit.love/api/v1/'' @ workspaceSlug' @ ''/members?items=100'')"

definition getMembersFromOrbit ::
  "('w, 'd) env \<Rightarrow> string \<Rightarrow> string \<Rightarrow> string \<Rightarrow> 'w
     \<Rightarrow> (error + OrbitMemberData list \<times> string option) \<times> 'w" where
  "getMembersFromOrbit env token' workspaceSlug' link w =
     (case axios_get (http_members env) (page_link workspaceSlug' link)
             (''Bearer '' @ token') w of
        (Inl err, w') \<Rightarrow> (Inl (DendronError (stringifyError env err) MINOR), w')
      | (Inr response, w') \<Rightarrow>
          (Inr (fold (\<lambda>member (members, next). (members @ [member], links_next response))
                  (data response) ([], None)), w'))"

text \<open>
  The \<^verbatim>\<open>while (next !== null)\<close> loop of \<^verbatim>\<open>getAllMembers\<close>. It need not end (a remote
  may hand out next links for ever): not returning is the value \<open>None\<close>.
\<close>

partial_function (option) getAllMembers_loop ::
  "('w, 'd) env \<Rightarrow> string \<Rightarrow> string \<Rightarrow> string option \<Rightarrow> OrbitMemberData list \<Rightarrow> 'w
     \<Rightarrow> ((error + OrbitMemberData list) \<times> 'w) option" where
  "getAllMembers_loop env token' workspaceSlug' next members w =
     (case next of
        None \<Rightarrow> Some (Inr members, w)
      | Some link \<Rightarrow>
          (case getMembersFromOrbit env token' workspaceSlug' link w of
             (Inl err, w') \<Rightarrow> Some (Inl err, w')
           | (Inr result, w') \<Rightarrow>
               getAllMembers_loop env token' workspaceSlug' (snd result) (members @ fst result) w'))"

definition getAllMembers ::
  "('w, 'd) env \<Rightarrow> OrbitImportPodConfig \<Rightarrow> 'w \<Rightarrow> ((error + OrbitMemberData list) \<times> 'w) option" where
  "getAllMembers env config w =
     getAllMembers_loop env (token config) (workspaceSlug config) (Some []) [] w"

text \<open>
  Pagination in the words of the specification: the page fetch repeated \<open>n\<close> times,
  each time with the cursor the previous fetch returned, stopping early at the end marker;
  the pages in arrival order, the cursor left and the state of the world after the last
  request. A failed fetch ends the sequence with its error.
\<close>

fun fetch_pages ::
  "('w, 'd) env \<Rightarrow> string \<Rightarrow> string \<Rightarrow> nat \<Rightarrow> string option \<Rightarrow> 'w
     \<Rightarrow> (error + OrbitMemberData list list \<times> string option) \<times> 'w" where
  "fetch_pages env token' workspaceSlug' 0 cursor w = (Inr ([], cursor), w)"
| "fetch_pages env token' workspaceSlug' (Suc n) None w = (Inr ([], None), w)"
| "fetch_pages env token' workspaceSlug' (Suc n) (Some link) w =
     (case getMembersFromOrbit env token' workspaceSlug' link w of
        (Inl err, w') \<Rightarrow> (Inl err, w')
      | (Inr (members, nextCursor), w') \<Rightarrow>
          (case fetch_pages env token' workspaceSlug' n nextCursor w' of
             (Inl err, w'') \<Rightarrow> (Inl err, w'')
           | (Inr (pages, cursor), w'') \<Rightarrow> (Inr (members # pages, cursor), w'')))"

text \<open>
  Pagination on the responses themselves. The cursor a response hands on is its
  \<open>links.next\<close>, and the end marker when it carries no record. \<open>fetch_responses\<close>
  requests \<open>n\<close> pages, each from the link the previous response handed on (the default
  listing first), stopping early at the end marker: the responses in arrival order, the
  cursor left and the state of the world after the last request. A request that fails ends
  the sequence with its cause.
\<close>

definition next_cursor :: "members_page \<Rightarrow> string option" where
  "next_cursor response = (if data response = [] then None else links_next response)"

fun fetch_responses ::
  "('w, 'd) env \<Rightarrow> string \<Rightarrow> string \<Rightarrow> nat \<Rightarrow> string option \<Rightarrow> 'w
     \<Rightarrow> (error + members_page list \<times> string option) \<times> 'w" where
  "fetch_responses env token' workspaceSlug' 0 cursor w = (Inr ([], cursor), w)"
| "fetch_responses env token' workspaceSlug' (Suc n) None w = (Inr ([], None), w)"
| "fetch_responses env token' workspaceSlug' (Suc n) (Some link) w =
     (case axios_get (http_members env) (page_link workspaceSlug' link)
             (''Bearer '' @ token') w of
        (Inl err, w') \<Rightarrow> (Inl err, w')
      | (Inr response, w') \<Rightarrow>
          (case fetch_responses env token' workspaceSlug' n (next_cursor response) w' of
             (Inl err, w'') \<Rightarrow> (Inl err, w'')
           | (Inr (responses, cursor), w'') \<Rightarrow> (Inr (response # responses, cursor), w'')))"

text \<open>\<^verbatim>\<open>OrbitUtils.getMember\<close> and \<^verbatim>\<open>getSingleMember\<close>: a failure is not caught.\<close>

definition getMember ::
  "('w, 'd) env \<Rightarrow> string \<Rightarrow> string \<Rightarrow> string \<Rightarrow> 'w \<Rightarrow> (error + OrbitMemberData) \<times> 'w" where
  "getMember env token' workspaceSlug' orbitId' w =
     axios_get (http_member env)
       (''https://app.orbit.love/api/v1/'' @ workspaceSlug' @ ''/members/'' @ orbitId')
       (''Bearer '' @ token') w"

definition getSingleMember ::
  "('w, 'd) env \<Rightarrow> OrbitImportPodConfig \<Rightarrow> string \<Rightarrow> 'w
     \<Rightarrow> (error + OrbitMemberData list) \<times> 'w" where
  "getSingleMember env config orbitId' w =
     (case getMember env (token config) (workspaceSlug config) orbitId' w of
        (Inl err, w') \<Rightarrow> (Inl err, w')
      | (Inr member, w') \<Rightarrow> (Inr [member], w'))"

section \<open>The reconciliation planner\<close>

text \<open>Object spread \<^verbatim>\<open>{...a, ...b}\<close> on the keys the pod does not interpret.\<close>

definition spread :: "(string \<times> jsval) list \<Rightarrow> (string \<times> jsval) list \<Rightarrow> (string \<times> jsval) list" where
  "spread a b = fold (\<lambda>(k, v). AList.update k v) b a"

text \<open>
  \<^verbatim>\<open>orbitData\<close>, spread last into the custom front matter of a synthesized note:
  its keys \<open>orbitId\<close>, \<open>social\<close> and \<open>orbit\<close> replace whatever was there.
\<close>

definition orbitData ::
  "('w, 'd) env \<Rightarrow> OrbitMemberData \<Rightarrow> (string \<times> jsval) list \<Rightarrow> custom" where
  "orbitData env member rest =
     (let a = attributes member in
      \<lparr>social = Some (getSocialAttributes member),
       custom_orbitId = Some (attr_id a),
       orbit = Some (orbit_attrs a @
                     [(''name'', attr_val (name a)),
                      (''last_imported_to_dendron'', JStr (nowISO env))]),
       other = rest\<rparr>)"

text \<open>The other keys of \<^verbatim>\<open>note.custom\<close>; spreading \<^verbatim>\<open>undefined\<close> adds nothing.\<close>

definition custom_other :: "NoteProps \<Rightarrow> (string \<times> jsval) list" where
  "custom_other n = (case custom n of None \<Rightarrow> [] | Some c \<Rightarrow> other c)"

text \<open>
  The name a record's note is looked up under (lines 269-278): in fast mode the file of
  \<open>fname\<close>, which is \<^verbatim>\<open>config.destName\<close> when that is set; otherwise the note named
  \<open>people.<noteName>\<close> among the engine's notes.
\<close>

definition lookupNote ::
  "OrbitImportPodConfig \<Rightarrow> DEngineClient \<Rightarrow> string \<Rightarrow> NoteProps option" where
  "lookupNote config engine noteName =
     (let fname' = (case destName config of
                      None \<Rightarrow> ''people.'' @ noteName
                    | Some d \<Rightarrow> if d \<noteq> [] then d else ''people.'' @ noteName)
      in if fastMode engine then getNoteByFile engine fname'
         else getNoteByFnameV5 engine (''people.'' @ noteName))"

text \<open>The name \<open>lookupNote\<close> asks the store for.\<close>

definition lookup_name :: "OrbitImportPodConfig \<Rightarrow> DEngineClient \<Rightarrow> string \<Rightarrow> string" where
  "lookup_name config engine noteName =
     (if fastMode engine
      then (case destName config of
              None \<Rightarrow> ''people.'' @ noteName
            | Some d \<Rightarrow> if d \<noteq> [] then d else ''people.'' @ noteName)
      else ''people.'' @ noteName)"

text \<open>
  A note that the lookup finds is held by reference: the conflict entry and the update
  request made for it, and those made for any other record that is looked up under the
  same name, hold one object, which \<^verbatim>\<open>updateNoteData\<close> changes in place. The name a
  note was looked up under identifies the object, so the buckets carry that name next to
  the note as it was found.

  The callback of \<^verbatim>\<open>members.map\<close> in \<^verbatim>\<open>membersToNotes\<close>: it pushes onto one of
  \<open>conflicts\<close>, \<open>create\<close> and \<open>notesToUpdate\<close>.
\<close>

definition member_step ::
  "('w, 'd) env \<Rightarrow> OrbitImportPodConfig \<Rightarrow> DEngineClient \<Rightarrow> OrbitMemberData
     \<Rightarrow> (string \<times> Conflict) list \<times> NoteProps list \<times>
        (string \<times> NoteProps \<times> OrbitMemberData) list
     \<Rightarrow> (string \<times> Conflict) list \<times> NoteProps list \<times>
        (string \<times> NoteProps \<times> OrbitMemberData) list" where
  "member_step env config engine member = (\<lambda>(conflicts, create, notesToUpdate).
     (let noteName = cleanName (cleanFname env) member;
          ref = lookup_name config engine noteName in
      case lookupNote config engine noteName of
        Some n \<Rightarrow>
          (let conflictData = getConflictedData n member in
           if length conflictData > 0
           then (conflicts @
                   [(ref,
                     \<lparr>conflictNote = n,
                      conflictEntry =
                        NoteUtils_create
                          (''people.orbit.duplicate.'' @ today env @ ''.'' @ noteName)
                          (orbitData env member (spread (frontmatter config) (custom_other n)))
                          (body n),
                      conflictData = conflictData\<rparr>)],
                 create, notesToUpdate)
           else (conflicts, create, notesToUpdate @ [(ref, n, member)]))
      | None \<Rightarrow>
          (conflicts,
           create @ [NoteUtils_create (''people.'' @ noteName)
                       (orbitData env member (frontmatter config)) []],
           notesToUpdate)))"

text \<open>What one record contributes to the three buckets.\<close>

definition plan_member ::
  "('w, 'd) env \<Rightarrow> OrbitImportPodConfig \<Rightarrow> DEngineClient \<Rightarrow> OrbitMemberData
     \<Rightarrow> (string \<times> Conflict) list \<times> NoteProps list \<times>
        (string \<times> NoteProps \<times> OrbitMemberData) list" where
  "plan_member env config engine member = member_step env config engine member ([], [], [])"

text \<open>
  The objects \<^verbatim>\<open>updateNoteData\<close> has been called on, by the name they were looked up
  under, as they are now. An object it has not been called on is as it was found.
\<close>

definition deref :: "(string \<Rightarrow> NoteProps option) \<Rightarrow> string \<Rightarrow> NoteProps \<Rightarrow> NoteProps" where
  "deref objs ref n = (case objs ref of None \<Rightarrow> n | Some n' \<Rightarrow> n')"

text \<open>
  One \<^verbatim>\<open>updateNoteData\<close> call of \<^verbatim>\<open>notesToUpdate.map\<close>: it works on the object as
  the earlier calls left it, and leaves it changed in place. A call that throws has
  changed nothing.
\<close>

definition update_step ::
  "string \<times> NoteProps \<times> OrbitMemberData
     \<Rightarrow> error option \<times> (string \<Rightarrow> NoteProps option) \<times> DEngineClient
     \<Rightarrow> error option \<times> (string \<Rightarrow> NoteProps option) \<times> DEngineClient" where
  "update_step = (\<lambda>(ref, n, member) (err, objs, engine).
     case updateNoteData (deref objs ref n) member engine of
       (Inl e, engine') \<Rightarrow> (if err = None then Some e else err, objs, engine')
     | (Inr n', engine') \<Rightarrow> (err, objs(ref \<mapsto> n'), engine'))"

text \<open>
  \<^verbatim>\<open>Promise.all(notesToUpdate.map(...))\<close>: every \<^verbatim>\<open>updateNoteData\<close> call is started, in
  order; the first rejection, if any, is the rejection of the whole.
\<close>

definition update_all ::
  "(string \<times> NoteProps \<times> OrbitMemberData) list \<Rightarrow> DEngineClient
     \<Rightarrow> error option \<times> (string \<Rightarrow> NoteProps option) \<times> DEngineClient" where
  "update_all notesToUpdate engine = fold update_step notesToUpdate (None, Map.empty, engine)"

text \<open>
  \<^verbatim>\<open>membersToNotes\<close>. The \<open>conflictNote\<close> of a returned conflict is the found object
  as the updates have left it.
\<close>

definition membersToNotes ::
  "('w, 'd) env \<Rightarrow> OrbitImportPodConfig \<Rightarrow> DEngineClient \<Rightarrow> OrbitMemberData list
     \<Rightarrow> (error + NoteProps list \<times> Conflict list) \<times> DEngineClient" where
  "membersToNotes env config engine members =
     (case fold (member_step env config engine) members ([], [], []) of
        (conflicts, create, notesToUpdate) \<Rightarrow>
          (case update_all notesToUpdate engine of
             (Some e, objs, engine') \<Rightarrow> (Inl e, engine')
           | (None, objs, engine') \<Rightarrow>
               (Inr (create,
                     map (\<lambda>(ref, c). c\<lparr>conflictNote := deref objs ref (conflictNote c)\<rparr>)
                       conflicts),
                engine')))"

section \<open>The sequential conflict resolver\<close>

text \<open>
  \<^verbatim>\<open>conflict.conflictEntry.fname = conflict.conflictNote.fname\<close>: the synthesized
  entry under the name of the note it replaces, as \<^verbatim>\<open>writeNote\<close> receives it. The
  renamed entry stays in the queue, which is not read again.
\<close>

definition overwrite_entry :: "Conflict \<Rightarrow> NoteProps" where
  "overwrite_entry c = (conflictEntry c)\<lparr>fname := fname (conflictNote c)\<rparr>"

text \<open>
  Lines 434-456 of \<^verbatim>\<open>onConflict\<close>: the decision for the entry at \<open>index\<close> and the
  \<^verbatim>\<open>switch\<close> on it, which returns the index it leaves. \<^verbatim>\<open>conflicts[index]\<close> out of
  range is \<^verbatim>\<open>undefined\<close> (\<open>None\<close>), and reading its \<^verbatim>\<open>conflictEntry\<close> throws. A
  response that is none of the three options (also \<^verbatim>\<open>undefined\<close>) is \<open>None\<close>.
\<close>

definition resolve ::
  "('w, 'd) env \<Rightarrow> OrbitImportPodConfig \<Rightarrow> Conflict list \<Rightarrow> nat \<Rightarrow> DEngineClient \<Rightarrow> 'd
     \<Rightarrow> (error + nat) \<times> DEngineClient \<times> 'd" where
  "resolve env config conflicts index engine d =
     (let conflict = (if index < length conflicts then Some (conflicts ! index) else None);
          (resp, d') = (if overwriteAll config then (Some OVERWRITE_LOCAL, d)
                        else handleConflict env conflict d)
      in case resp of
           Some OVERWRITE_LOCAL \<Rightarrow>
             (case conflict of
                None \<Rightarrow> (Inl TypeError, engine, d')
              | Some c \<Rightarrow>
                  (Inr index, writeNote (overwrite_entry c) engine, d'))
         | Some SKIP \<Rightarrow> (Inr index, engine, d')
         | Some SKIP_ALL \<Rightarrow> (Inr (length conflicts), engine, d')
         | None \<Rightarrow> (Inr index, engine, d'))"

function onConflict ::
  "('w, 'd) env \<Rightarrow> OrbitImportPodConfig \<Rightarrow> Conflict list \<Rightarrow> nat \<Rightarrow> NoteProps list
     \<Rightarrow> DEngineClient \<Rightarrow> 'd \<Rightarrow> (error + NoteProps list) \<times> DEngineClient \<times> 'd" where
  "onConflict env config conflicts index conflictResolvedNotes engine d =
     (case resolve env config conflicts index engine d of
        (Inl e, engine', d') \<Rightarrow> (Inl e, engine', d')
      | (Inr index', engine', d') \<Rightarrow>
          if int index' < int (length conflicts) - 1
          then onConflict env config conflicts (index' + 1) conflictResolvedNotes engine' d'
          else (Inr conflictResolvedNotes, engine', d'))"
  by pat_completeness auto

termination
  by (relation "measure (\<lambda>(env, config, conflicts, index, r, engine, d).
                          length conflicts - index)")
     (auto simp: resolve_def Let_def
           split: if_splits prod.splits option.splits MergeConflictOptions.splits)

declare onConflict.simps [simp del]

text \<open>
  The resolver in the words of the specification, as a state machine over the entries still
  queued: \<open>OVERWRITE_LOCAL\<close> commits the renamed entry and advances, \<open>SKIP\<close> and an
  unrecognized answer advance, \<open>SKIP_ALL\<close> stops. With \<open>overwriteAll\<close> no decision is
  requested.
\<close>

fun drain ::
  "('w, 'd) env \<Rightarrow> OrbitImportPodConfig \<Rightarrow> Conflict list \<Rightarrow> DEngineClient \<Rightarrow> 'd
     \<Rightarrow> DEngineClient \<times> 'd" where
  "drain env config [] engine d = (engine, d)"
| "drain env config (c # queue) engine d =
     (case (if overwriteAll config then (Some OVERWRITE_LOCAL, d)
            else handleConflict env (Some c) d) of
        (Some OVERWRITE_LOCAL, d') \<Rightarrow> drain env config queue (writeNote (overwrite_entry c) engine) d'
      | (Some SKIP, d') \<Rightarrow> drain env config queue engine d'
      | (Some SKIP_ALL, d') \<Rightarrow> (engine, d')
      | (None, d') \<Rightarrow> drain env config queue engine d')"

text \<open>
  A decision source that records every question it is asked together with its answer, on
  top of any decision source \<open>h\<close>.
\<close>

definition recording ::
  "(Conflict option \<Rightarrow> 'd \<Rightarrow> MergeConflictOptions option \<times> 'd) \<Rightarrow> Conflict option
     \<Rightarrow> 'd \<times> (Conflict option \<times> MergeConflictOptions option) list
     \<Rightarrow> MergeConflictOptions option \<times> 'd \<times> (Conflict option \<times> MergeConflictOptions option) list" where
  "recording h conflict = (\<lambda>(d, asked).
     case h conflict d of (resp, d') \<Rightarrow> (resp, d', asked @ [(conflict, resp)]))"

text \<open>The commits that recorded answers call for: one per \<open>OVERWRITE_LOCAL\<close>, in order.\<close>

definition commits_of ::
  "(Conflict option \<times> MergeConflictOptions option) list \<Rightarrow> engine_call list" where
  "commits_of asked =
     concat (map (\<lambda>(conflict, resp).
                    case (conflict, resp) of
                      (Some c, Some OVERWRITE_LOCAL) \<Rightarrow> [WriteNote (overwrite_entry c)]
                    | _ \<Rightarrow> []) asked)"

section \<open>The run\<close>

text \<open>Lines 534-568 of \<^verbatim>\<open>plant\<close>: everything after the records are fetched.\<close>

definition plantMembers ::
  "('w, 'd) env \<Rightarrow> OrbitImportPodConfig \<Rightarrow> OrbitMemberData list \<Rightarrow> DEngineClient \<Rightarrow> 'd
     \<Rightarrow> (error + NoteProps list) \<times> DEngineClient \<times> 'd" where
  "plantMembers env config members engine d =
     (case membersToNotes env config engine members of
        (Inl e, engine1) \<Rightarrow> (Inl e, engine1, d)
      | (Inr (create, conflicts), engine1) \<Rightarrow>
          (let conflictNoteArray = map conflictNote conflicts;
               engine2 = bulkAddNotes create engine1
           in if length conflicts > 0
              then (case onConflict env config conflicts 0 conflictNoteArray engine2 d of
                      (Inl e, engine3, d') \<Rightarrow> (Inl e, engine3, d')
                    | (Inr conflictResolvedNotes, engine3, d') \<Rightarrow>
                        (Inr (create @ conflictResolvedNotes), engine3, d'))
              else (Inr (create @ []), engine2, d)))"

text \<open>
  \<^verbatim>\<open>plant\<close>: fetch one member when \<^verbatim>\<open>orbitId\<close> is configured, all members otherwise,
  then reconcile. \<open>None\<close>: the fetch loop does not return.
\<close>

definition plant ::
  "('w, 'd) env \<Rightarrow> OrbitImportPodConfig \<Rightarrow> 'w \<Rightarrow> DEngineClient \<Rightarrow> 'd
     \<Rightarrow> ((error + NoteProps list) \<times> 'w \<times> DEngineClient \<times> 'd) option" where
  "plant env config w engine d =
     (case (case orbitId config of
              Some orbitId' \<Rightarrow> Some (getSingleMember env config orbitId' w)
            | None \<Rightarrow> getAllMembers env config w) of
        None \<Rightarrow> None
      | Some (Inl e, w') \<Rightarrow> Some (Inl e, w', engine, d)
      | Some (Inr members, w') \<Rightarrow>
          (case plantMembers env config members engine d of
             (r, engine', d') \<Rightarrow> Some (r, w', engine', d')))"

section \<open>Example records, notes and collaborators\<close>

definition member_of ::
  "string \<Rightarrow> string option \<Rightarrow> (SocialKeys \<times> string) list \<Rightarrow> OrbitMemberData" where
  "member_of i nm soc =
     \<lparr>member_id = i,
      attributes = \<lparr>attr_id = i, name = nm, socials = map_of soc, orbit_attrs = []\<rparr>\<rparr>"

definition carol :: OrbitMemberData where
  "carol = member_of ''m3'' None [(email, ''carol@x.com'')]"

definition nobody :: OrbitMemberData where
  "nobody = member_of ''m4'' None []"

definition bob_new :: OrbitMemberData where
  "bob_new = member_of ''m2'' (Some ''bob'') [(github, ''bob-new'')]"

definition at_only :: OrbitMemberData where
  "at_only = member_of ''m6'' None [(email, ''@x.com'')]"

definition dave :: OrbitMemberData where
  "dave = member_of ''m5'' (Some ''dave'') [(github, ''dave''), (twitter, ''dave_t'')]"

definition bob_tw :: OrbitMemberData where
  "bob_tw = member_of ''m7'' (Some ''bob'') [(github, ''bob-old''), (twitter, ''bob_t'')]"

definition note_of :: "string \<Rightarrow> SocialData option \<Rightarrow> NoteProps" where
  "note_of f bag =
     \<lparr>fname = f, body = [],
      custom = Some \<lparr>social = bag, custom_orbitId = None, orbit = None, other = []\<rparr>\<rparr>"

definition bob_old_note :: NoteProps where
  "bob_old_note = note_of ''people.bob'' (Some [(github, JStr ''bob-old''), (twitter, JNull)])"

definition bob_adopted :: NoteProps where
  "bob_adopted =
     note_of ''people.bob'' (Some [(github, JStr ''bob-old''), (twitter, JStr ''bob_t'')])"

definition bare_note :: NoteProps where
  "bare_note = note_of ''people.bob'' None"

text \<open>
  A remote whose state is the list of the links requested so far. Workspace \<open>ws\<close> has two
  pages, of two records and of one; workspace \<open>gap\<close> has an empty second page that links to a third; the second page
  of workspace \<open>down\<close> answers 503; any other link cannot be reached.
\<close>

definition remote_pages :: "string \<Rightarrow> members_page http_result" where
  "remote_pages link =
     (if link = ''https://app.orbit.love/api/v1/ws/members?items=100''
      then HttpResponse 200 \<lparr>data = [carol, dave], links_next = Some ''p2''\<rparr>
      else if link = ''p2'' then HttpResponse 200 \<lparr>data = [bob_new], links_next = None\<rparr>
      else if link = ''https://app.orbit.love/api/v1/gap/members?items=100''
      then HttpResponse 200 \<lparr>data = [carol], links_next = Some ''g2''\<rparr>
      else if link = ''g2'' then HttpResponse 200 \<lparr>data = [], links_next = Some ''g3''\<rparr>
      else if link = ''g3'' then HttpResponse 200 \<lparr>data = [bob_new], links_next = None\<rparr>
      else if link = ''https://app.orbit.love/api/v1/down/members?items=100''
      then HttpResponse 200 \<lparr>data = [carol], links_next = Some ''d2''\<rparr>
      else if link = ''d2'' then HttpResponse 503 \<lparr>data = [], links_next = None\<rparr>
      else TransportFailure ''ENOTFOUND'')"

text \<open>A decision source that answers from a script, one answer per question.\<close>

definition scripted ::
  "Conflict option \<Rightarrow> MergeConflictOptions option list
     \<Rightarrow> MergeConflictOptions option \<times> MergeConflictOptions option list" where
  "scripted conflict answers = (case answers of [] \<Rightarrow> (None, []) | r # rs \<Rightarrow> (r, rs))"

definition env_with ::
  "(Conflict option \<Rightarrow> 'd \<Rightarrow> MergeConflictOptions option \<times> 'd) \<Rightarrow> (string list, 'd) env" where
  "env_with h =
     \<lparr>http_members = (\<lambda>w link authorization. (remote_pages link, w @ [link])),
      http_member = (\<lambda>w link authorization. (TransportFailure ''ENOTFOUND'', w @ [link])),
      stringifyError = (\<lambda>e. case e of AxiosNetworkError c \<Rightarrow> c
                               | AxiosStatusError st \<Rightarrow> ''Request failed''
                               | _ \<Rightarrow> ''error''),
      cleanFname = (\<lambda>s. s),
      handleConflict = h,
      today = ''2022.01.31'',
      nowISO = ''2022-01-31T00:00:00.000Z''\<rparr>"

definition example_env :: "(string list, MergeConflictOptions option list) env" where
  "example_env = env_with scripted"

definition example_config :: "string \<Rightarrow> OrbitImportPodConfig" where
  "example_config slug =
     \<lparr>workspaceSlug = slug, token = ''secret'', orbitId = None, overwriteAll = False,
      destName = None, frontmatter = []\<rparr>"

definition example_engine :: "(string \<times> NoteProps) list \<Rightarrow> DEngineClient" where
  "example_engine ns = \<lparr>fastMode = False, engine_notes = map_of ns, calls = []\<rparr>"

text \<open>A queue of three conflicts, and a run of the resolver over it that is told to
  overwrite the first entry and to skip all at the second.\<close>

definition conflict_of :: "string \<Rightarrow> string \<Rightarrow> string \<Rightarrow> Conflict" where
  "conflict_of nm old new =
     \<lparr>conflictNote = note_of (''people.'' @ nm) (Some [(github, JStr old)]),
      conflictEntry =
        note_of (''people.orbit.duplicate.2022.01.31.'' @ nm) (Some [(github, JStr new)]),
      conflictData = [github]\<rparr>"

definition queue3 :: "Conflict list" where
  "queue3 = [conflict_of ''ann'' ''a1'' ''a2'', conflict_of ''bo'' ''b1'' ''b2'',
             conflict_of ''cy'' ''c1'' ''c2'']"

definition skip_all_run ::
  "(error + NoteProps list) \<times> DEngineClient \<times> MergeConflictOptions option list \<times>
   (Conflict option \<times> MergeConflictOptions option) list" where
  "skip_all_run =
     onConflict (env_with (recording scripted)) (example_config ''ws'') queue3 0
       (map conflictNote queue3) (example_engine [])
       ([Some OVERWRITE_LOCAL, Some SKIP_ALL, Some OVERWRITE_LOCAL], [])"


definition fast_engine :: "(string \<times> NoteProps) list \<Rightarrow> DEngineClient" where
  "fast_engine ns = \<lparr>fastMode = True, engine_notes = map_of ns, calls = []\<rparr>"

definition vip_config :: OrbitImportPodConfig where
  "vip_config = (example_config ''ws'')\<lparr>destName := Some ''vip''\<rparr>"

text \<open>The same scenario without \<open>overwriteAll\<close>, the conflict answered with \<open>SKIP\<close>.\<close>

definition skip_run ::
  "(error + NoteProps list) \<times> DEngineClient \<times> MergeConflictOptions option list" where
  "skip_run =
     plantMembers example_env (example_config ''ws'') [bob_new]
       (example_engine [(''people.bob'', bob_old_note)]) [Some SKIP]"

text \<open>A first run over two records, with recorded decisions: one record conflicts with
  the stored \<open>people.bob\<close> and is answered \<open>OVERWRITE_LOCAL\<close>, the other is new.\<close>

definition first_run ::
  "(error + NoteProps list) \<times> DEngineClient \<times> MergeConflictOptions option list \<times>
   (Conflict option \<times> MergeConflictOptions option) list" where
  "first_run =
     plantMembers (env_with (recording scripted)) (example_config ''ws'') [bob_new, carol]
       (example_engine [(''people.bob'', bob_old_note)]) ([Some OVERWRITE_LOCAL], [])"



section \<open>The identity resolver\<close>

lemma js_or_str_js_or: "js_or_str (js_or a b) c = js_or_str a (js_or_str b c)"
  by (simp add: js_or_str_def js_or_def split: option.splits)

lemma js_or_str_first: "js_or_str a (first_nonempty xs d) = first_nonempty (a # xs) d"
  by (cases a) (simp_all add: js_or_str_def)

lemma js_or_str_email:
  "js_or_str (getNameFromEmail e) b = first_nonempty [map_option local_part e] b"
  by (cases e) (auto simp: getNameFromEmail_def js_or_str_def local_part_def)

lemma first_nonempty_js_or:
  "first_nonempty (js_or a b # xs) d = first_nonempty (a # b # xs) d"
  by (cases a; cases b) (simp_all add: js_or_def)

lemma cleanName_refines: "cleanName cf m = cf (resolveName_spec m)"
  unfolding cleanName_def resolveName_spec_def Let_def
  by (simp only: js_or_str_js_or js_or_str_email js_or_str_first first_nonempty_js_or)

text \<open>
  C6 (as amended). For every record, \<open>cleanName\<close> returns the sanitized first non-empty
  value among display name, github, discord, twitter, the email's local part (the
  characters before \<open>@\<close>) and, failing all, the record's external identifier. In
  particular a record with only an email set resolves to the email's local part when that
  local part is not empty, and to its external identifier when it is empty; and a record
  with nothing set resolves to its external identifier.
\<close>

theorem cleanName_resolves:
  "cleanName cf m = cf (resolveName_spec m) \<and>
   (name (attributes m) = None \<and> socials (attributes m) github = None \<and>
    socials (attributes m) discord = None \<and> socials (attributes m) twitter = None \<and>
    socials (attributes m) email = Some e \<and> local_part e \<noteq> []
      \<longrightarrow> cleanName cf m = cf (local_part e)) \<and>
   (name (attributes m) = None \<and> socials (attributes m) github = None \<and>
    socials (attributes m) discord = None \<and> socials (attributes m) twitter = None \<and>
    socials (attributes m) email = Some e \<and> local_part e = []
      \<longrightarrow> cleanName cf m = cf (member_id m)) \<and>
   (name (attributes m) = None \<and> socials (attributes m) github = None \<and>
    socials (attributes m) discord = None \<and> socials (attributes m) twitter = None \<and>
    socials (attributes m) email = None
      \<longrightarrow> cleanName cf m = cf (member_id m))"
  by (simp add: cleanName_refines resolveName_spec_def)

theorem cleanName_resolves_counterexample:
  "name (attributes at_only) = None \<and> socials (attributes at_only) github = None \<and>
   socials (attributes at_only) discord = None \<and> socials (attributes at_only) twitter = None \<and>
   socials (attributes at_only) email = Some ''@x.com'' \<and>
   local_part ''@x.com'' = [] \<and> member_id at_only = ''m6'' \<and>
   cleanName (\<lambda>s. s) at_only = ''m6''"
  by (simp add: at_only_def member_of_def local_part_def cleanName_def js_or_def js_or_str_def
        getNameFromEmail_def)

theorem cleanName_resolves_witness:
  "cleanName (\<lambda>s. s) carol = ''carol'' \<and> cleanName (\<lambda>s. s) at_only = ''m6'' \<and>
   cleanName (\<lambda>s. s) nobody = ''m4''"
  using cleanName_resolves [of "\<lambda>s. s" carol "''carol@x.com''"]
        cleanName_resolves [of "\<lambda>s. s" at_only "''@x.com''"]
        cleanName_resolves [of "\<lambda>s. s" nobody]
  by (simp add: carol_def nobody_def at_only_def member_of_def local_part_def
        resolveName_spec_def)

section \<open>The conflict detector\<close>

lemma SocialKeys_values_all: "key \<in> set SocialKeys_values"
  by (cases key) (simp_all add: SocialKeys_values_def)

text \<open>
  C3. \<open>getConflictedData\<close> returns the empty list when the node has no social bag;
  otherwise a key is returned exactly when the node's value for it is neither null nor
  undefined and differs from the record's value. Every key is returned at most once, and
  the keys come in the enumeration order github, discord, linkedin, twitter, email.
\<close>

theorem getConflictedData_spec:
  "(social_of n = None \<longrightarrow> getConflictedData n m = []) \<and>
   (\<forall>bag. social_of n = Some bag \<longrightarrow>
      (\<forall>key. key \<in> set (getConflictedData n m) \<longleftrightarrow>
         bag_get bag key \<noteq> JNull \<and> bag_get bag key \<noteq> JUndefined \<and>
         attr_val (socials (attributes m) key) \<noteq> bag_get bag key)) \<and>
   distinct (getConflictedData n m) \<and>
   subseq (getConflictedData n m) [github, discord, linkedin, twitter, email]"
proof (intro conjI impI allI)
  assume "social_of n = None"
  then show "getConflictedData n m = []"
    by (simp add: social_of_def getConflictedData_def split: option.splits)
next
  fix bag key
  assume "social_of n = Some bag"
  then show "key \<in> set (getConflictedData n m) \<longleftrightarrow>
         bag_get bag key \<noteq> JNull \<and> bag_get bag key \<noteq> JUndefined \<and>
         attr_val (socials (attributes m) key) \<noteq> bag_get bag key"
    by (auto simp: social_of_def getConflictedData_def Let_def SocialKeys_values_all
             split: option.splits)
next
  show "distinct (getConflictedData n m)"
    by (simp add: getConflictedData_def SocialKeys_values_def split: option.splits)
next
  show "subseq (getConflictedData n m) [github, discord, linkedin, twitter, email]"
    by (simp add: getConflictedData_def SocialKeys_values_def split: option.splits)
qed

theorem getConflictedData_spec_witness:
  "getConflictedData bare_note bob_new = [] \<and>
   github \<in> set (getConflictedData bob_old_note bob_new) \<and>
   twitter \<notin> set (getConflictedData bob_old_note bob_new)"
  using getConflictedData_spec [of bare_note bob_new]
        getConflictedData_spec [of bob_old_note bob_new]
  by (simp add: social_of_def bare_note_def bob_old_note_def note_of_def bob_new_def
        member_of_def bag_get_def attr_val_def)

section \<open>The remote fetcher: pagination and failure\<close>

lemma forEach_push:
  "fold (\<lambda>member (members, next). (members @ [member], nx)) xs (acc, c)
     = (acc @ xs, if xs = [] then c else nx)"
  by (induction xs arbitrary: acc c) auto

lemma loop_fetch_pages:
  "fetch_pages env t s n cursor w = (Inr (pages, cursor'), w')
     \<Longrightarrow> getAllMembers_loop env t s cursor acc w
           = getAllMembers_loop env t s cursor' (acc @ concat pages) w'"
proof (induction n arbitrary: cursor w acc pages)
  case 0
  then show ?case by simp
next
  case (Suc n)
  show ?case
  proof (cases cursor)
    case None
    with Suc.prems show ?thesis by simp
  next
    case (Some link)
    obtain r w1 where g: "getMembersFromOrbit env t s link w = (r, w1)"
      by (cases "getMembersFromOrbit env t s link w")
    show ?thesis
    proof (cases r)
      case (Inl e)
      with Suc.prems Some g show ?thesis by simp
    next
      case (Inr res)
      obtain ms nx where res: "res = (ms, nx)" by (cases res)
      obtain r2 w2 where f: "fetch_pages env t s n nx w1 = (r2, w2)"
        by (cases "fetch_pages env t s n nx w1")
      show ?thesis
      proof (cases r2)
        case (Inl e)
        with Suc.prems Some g Inr res f show ?thesis by simp
      next
        case (Inr res2)
        obtain ps c where res2: "res2 = (ps, c)" by (cases res2)
        from Suc.prems Some g \<open>r = Inr res\<close> res f Inr res2
        have eqs: "pages = ms # ps" "cursor' = c" "w' = w2" by simp_all
        from f Inr res2 eqs have "fetch_pages env t s n nx w1 = (Inr (ps, cursor'), w')"
          by simp
        from Suc.IH [OF this, of "acc @ ms"]
        have "getAllMembers_loop env t s nx (acc @ ms) w1
                = getAllMembers_loop env t s cursor' ((acc @ ms) @ concat ps) w'" .
        moreover have "getAllMembers_loop env t s cursor acc w
                = getAllMembers_loop env t s nx (acc @ ms) w1"
          using Some g \<open>r = Inr res\<close> res
          by (subst getAllMembers_loop.simps) simp
        ultimately show ?thesis using eqs by simp
      qed
    qed
  qed
qed

lemma loop_returns:
  assumes "getAllMembers_loop env t s cursor acc w = Some (Inr ms, w')"
  shows "\<exists>n pages. fetch_pages env t s n cursor w = (Inr (pages, None), w') \<and>
                   ms = acc @ concat pages"
proof -
  define P where "P = (\<lambda>(env :: ('a, 'b) env) t s cursor (acc :: OrbitMemberData list) (w :: 'a)
                        (y :: (error + OrbitMemberData list) \<times> 'a).
      \<forall>ms w'. y = (Inr ms, w') \<longrightarrow>
           (\<exists>n pages. fetch_pages env t s n cursor w = (Inr (pages, None), w') \<and>
                     ms = acc @ concat pages))"
  have "P env t s cursor acc w (Inr ms, w')"
  proof (rule getAllMembers_loop.raw_induct [where P = P, OF _ assms])
    fix loop and env :: "('a, 'b) env" and t s cursor and acc :: "OrbitMemberData list"
      and w :: 'a and y
    assume IH: "\<And>env t s cursor acc w y. loop env t s cursor acc w = Some y
                  \<Longrightarrow> P env t s cursor acc w y"
      and body: "(case cursor of None \<Rightarrow> Some (Inr acc, w)
          | Some link \<Rightarrow>
              (case getMembersFromOrbit env t s link w of
                 (Inl err, w') \<Rightarrow> Some (Inl err, w')
               | (Inr result, w') \<Rightarrow> loop env t s (snd result) (acc @ fst result) w'))
          = Some y"
    show "P env t s cursor acc w y"
      unfolding P_def
    proof (intro allI impI)
      fix ms w'
      assume y: "y = (Inr ms, w')"
      show "\<exists>n pages. fetch_pages env t s n cursor w = (Inr (pages, None), w') \<and>
                       ms = acc @ concat pages"
      proof (cases cursor)
        case None
        with body y have "ms = acc" "w' = w" by simp_all
        then have "fetch_pages env t s 0 cursor w = (Inr ([], None), w') \<and>
                   ms = acc @ concat []"
          using None by simp
        then show ?thesis by blast
      next
        case (Some link)
        obtain r w1 where g: "getMembersFromOrbit env t s link w = (r, w1)"
          by (cases "getMembersFromOrbit env t s link w")
        show ?thesis
        proof (cases r)
          case (Inl e)
          with body Some g y show ?thesis by simp
        next
          case (Inr res)
          obtain members nx where res: "res = (members, nx)" by (cases res)
          from body Some g Inr res have "loop env t s nx (acc @ members) w1 = Some y"
            by simp
          from IH [OF this] y obtain n pages where
            f: "fetch_pages env t s n nx w1 = (Inr (pages, None), w')"
            and ms: "ms = (acc @ members) @ concat pages"
            unfolding P_def by blast
          have "fetch_pages env t s (Suc n) cursor w = (Inr (members # pages, None), w')"
            using Some g Inr res f by simp
          moreover have "ms = acc @ concat (members # pages)" using ms by simp
          ultimately show ?thesis by blast
        qed
      qed
    qed
  qed
  then show ?thesis unfolding P_def by blast
qed

lemma loop_reaches_end:
  assumes "fetch_pages env t s n cursor w = (Inr (pages, None), w')"
  shows "getAllMembers_loop env t s cursor acc w = Some (Inr (acc @ concat pages), w')"
proof -
  have "getAllMembers_loop env t s cursor acc w
          = getAllMembers_loop env t s None (acc @ concat pages) w'"
    using assms by (rule loop_fetch_pages)
  then show ?thesis by (simp add: getAllMembers_loop.simps)
qed

lemma getMembersFromOrbit_ok:
  "axios_get (http_members env) (page_link s link) (''Bearer '' @ t) w = (Inr response, w')
     \<Longrightarrow> getMembersFromOrbit env t s link w
           = (Inr (data response, next_cursor response), w')"
  by (simp add: getMembersFromOrbit_def forEach_push next_cursor_def)

lemma getMembersFromOrbit_rejected:
  "axios_get (http_members env) (page_link s link) (''Bearer '' @ t) w = (Inl err, w')
     \<Longrightarrow> getMembersFromOrbit env t s link w
           = (Inl (DendronError (stringifyError env err) MINOR), w')"
  by (simp add: getMembersFromOrbit_def)

lemma fetch_pages_of_responses:
  "fetch_responses env t s n cursor w = (Inr (rs, c), w')
     \<Longrightarrow> fetch_pages env t s n cursor w = (Inr (map data rs, c), w')"
proof (induction n arbitrary: cursor w rs)
  case 0
  then show ?case by auto
next
  case (Suc n)
  show ?case
  proof (cases cursor)
    case None
    with Suc.prems show ?thesis by auto
  next
    case (Some link)
    obtain r w1 where g: "axios_get (http_members env) (page_link s link) (''Bearer '' @ t) w
                            = (r, w1)"
      by (cases "axios_get (http_members env) (page_link s link) (''Bearer '' @ t) w")
    show ?thesis
    proof (cases r)
      case (Inl e)
      with Suc.prems Some g show ?thesis by simp
    next
      case (Inr response)
      obtain r2 w2 where f: "fetch_responses env t s n (next_cursor response) w1 = (r2, w2)"
        by (cases "fetch_responses env t s n (next_cursor response) w1")
      show ?thesis
      proof (cases r2)
        case (Inl e)
        with Suc.prems Some g \<open>r = Inr response\<close> f show ?thesis by simp
      next
        case (Inr res2)
        obtain rs2 c2 where res2: "res2 = (rs2, c2)" by (cases res2)
        from Suc.prems Some g \<open>r = Inr response\<close> f Inr res2
        have eqs: "rs = response # rs2" "c = c2" "w' = w2" by simp_all
        from f Inr res2 eqs have "fetch_responses env t s n (next_cursor response) w1
                                = (Inr (rs2, c), w')" by simp
        from Suc.IH [OF this]
        have "fetch_pages env t s n (next_cursor response) w1 = (Inr (map data rs2, c), w')" .
        moreover from g \<open>r = Inr response\<close>
        have "getMembersFromOrbit env t s link w
                = (Inr (data response, next_cursor response), w1)"
          by (simp add: getMembersFromOrbit_ok)
        ultimately show ?thesis using Some eqs by simp
      qed
    qed
  qed
qed

lemma fetch_responses_of_pages:
  "fetch_pages env t s n cursor w = (Inr (pages, c), w')
     \<Longrightarrow> \<exists>rs. fetch_responses env t s n cursor w = (Inr (rs, c), w') \<and> pages = map data rs"
proof (induction n arbitrary: cursor w pages)
  case 0
  then show ?case by auto
next
  case (Suc n)
  show ?case
  proof (cases cursor)
    case None
    with Suc.prems show ?thesis by auto
  next
    case (Some link)
    obtain r w1 where g: "axios_get (http_members env) (page_link s link) (''Bearer '' @ t) w
                            = (r, w1)"
      by (cases "axios_get (http_members env) (page_link s link) (''Bearer '' @ t) w")
    show ?thesis
    proof (cases r)
      case (Inl e)
      with g have "getMembersFromOrbit env t s link w
                     = (Inl (DendronError (stringifyError env e) MINOR), w1)"
        by (simp add: getMembersFromOrbit_rejected)
      with Suc.prems Some show ?thesis by simp
    next
      case (Inr response)
      with g have page: "getMembersFromOrbit env t s link w
                = (Inr (data response, next_cursor response), w1)"
        by (simp add: getMembersFromOrbit_ok)
      obtain r2 w2 where f: "fetch_pages env t s n (next_cursor response) w1 = (r2, w2)"
        by (cases "fetch_pages env t s n (next_cursor response) w1")
      show ?thesis
      proof (cases r2)
        case (Inl e)
        with Suc.prems Some page f show ?thesis by simp
      next
        case (Inr res2)
        obtain ps c2 where res2: "res2 = (ps, c2)" by (cases res2)
        from Suc.prems Some page f Inr res2
        have eqs: "pages = data response # ps" "c = c2" "w' = w2" by simp_all
        from f Inr res2 eqs have "fetch_pages env t s n (next_cursor response) w1
                                = (Inr (ps, c), w')" by simp
        from Suc.IH [OF this] obtain rs2 where
          rs2: "fetch_responses env t s n (next_cursor response) w1 = (Inr (rs2, c), w')"
            "ps = map data rs2" by blast
        have "fetch_responses env t s (Suc n) cursor w = (Inr (response # rs2, c), w') \<and>
              pages = map data (response # rs2)"
          using Some g \<open>r = Inr response\<close> rs2 eqs by simp
        then show ?thesis by blast
      qed
    qed
  qed
qed

text \<open>
  C8. A page fetch that is answered returns the records of the response, all of them and
  in the order of the response, together with the cursor the response hands on.
  \<open>getAllMembers\<close> returns a list of records exactly when requesting page after page,
  the default listing first (the empty cursor) and then each time the link the previous
  response handed on, reaches the end marker; the list is then the records of all the
  responses in arrival order, and the world is as the last request left it.
\<close>

theorem getAllMembers_accumulates:
  "(\<forall>link w0 response w1.
      axios_get (http_members env) (page_link (workspaceSlug config) link)
          (''Bearer '' @ token config) w0 = (Inr response, w1) \<longrightarrow>
      getMembersFromOrbit env (token config) (workspaceSlug config) link w0
        = (Inr (data response, if data response = [] then None else links_next response), w1)) \<and>
   (getAllMembers env config w = Some (Inr ms, w') \<longleftrightarrow>
      (\<exists>n responses.
          fetch_responses env (token config) (workspaceSlug config) n (Some []) w
            = (Inr (responses, None), w') \<and>
          ms = concat (map data responses)))"
proof (intro conjI allI impI)
  fix link w0 response w1
  assume "axios_get (http_members env) (page_link (workspaceSlug config) link)
          (''Bearer '' @ token config) w0 = (Inr response, w1)"
  then show "getMembersFromOrbit env (token config) (workspaceSlug config) link w0
        = (Inr (data response, if data response = [] then None else links_next response), w1)"
    by (simp add: getMembersFromOrbit_ok next_cursor_def)
next
  show "getAllMembers env config w = Some (Inr ms, w') \<longleftrightarrow>
      (\<exists>n responses.
          fetch_responses env (token config) (workspaceSlug config) n (Some []) w
            = (Inr (responses, None), w') \<and>
          ms = concat (map data responses))"
  proof
    assume "getAllMembers env config w = Some (Inr ms, w')"
    then have "\<exists>n pages. fetch_pages env (token config) (workspaceSlug config) n (Some []) w
                      = (Inr (pages, None), w') \<and> ms = concat pages"
      unfolding getAllMembers_def using loop_returns [of env _ _ "Some []" "[]" w ms w'] by simp
    then obtain n pages where
      p: "fetch_pages env (token config) (workspaceSlug config) n (Some []) w
            = (Inr (pages, None), w')" and ms: "ms = concat pages" by blast
    from fetch_responses_of_pages [OF p] ms
    show "\<exists>n responses.
          fetch_responses env (token config) (workspaceSlug config) n (Some []) w
            = (Inr (responses, None), w') \<and>
          ms = concat (map data responses)" by blast
  next
    assume "\<exists>n responses.
          fetch_responses env (token config) (workspaceSlug config) n (Some []) w
            = (Inr (responses, None), w') \<and>
          ms = concat (map data responses)"
    then obtain n responses where
      r: "fetch_responses env (token config) (workspaceSlug config) n (Some []) w
            = (Inr (responses, None), w')" and ms: "ms = concat (map data responses)" by blast
    from fetch_pages_of_responses [OF r] ms
    show "getAllMembers env config w = Some (Inr ms, w')"
      unfolding getAllMembers_def by (simp add: loop_reaches_end)
  qed
qed

lemma example_responses_ws:
  "fetch_responses example_env ''secret'' ''ws'' 2 (Some []) []
     = (Inr ([\<lparr>data = [carol, dave], links_next = Some ''p2''\<rparr>,
              \<lparr>data = [bob_new], links_next = None\<rparr>], None),
        [''https://app.orbit.love/api/v1/ws/members?items=100'', ''p2''])"
  by (simp add: numeral_2_eq_2 axios_get_def page_link_def next_cursor_def
        example_env_def env_with_def remote_pages_def)

theorem getAllMembers_accumulates_witness:
  "getMembersFromOrbit example_env ''secret'' ''ws'' [] []
     = (Inr ([carol, dave], Some ''p2''),
        [''https://app.orbit.love/api/v1/ws/members?items=100'']) \<and>
   getAllMembers example_env (example_config ''ws'') []
     = Some (Inr [carol, dave, bob_new],
             [''https://app.orbit.love/api/v1/ws/members?items=100'', ''p2''])"
proof -
  note spec = getAllMembers_accumulates [of example_env "example_config ''ws''" "[]"
      "[carol, dave, bob_new]" "[''https://app.orbit.love/api/v1/ws/members?items=100'', ''p2'']"]
  have request: "axios_get (http_members example_env)
        (page_link (workspaceSlug (example_config ''ws'')) [])
        (''Bearer '' @ token (example_config ''ws'')) []
      = (Inr \<lparr>data = [carol, dave], links_next = Some ''p2''\<rparr>,
         [''https://app.orbit.love/api/v1/ws/members?items=100''])"
    by (simp add: axios_get_def page_link_def example_env_def env_with_def remote_pages_def
          example_config_def)
  from spec have "getMembersFromOrbit example_env (token (example_config ''ws''))
        (workspaceSlug (example_config ''ws'')) [] []
      = (Inr (data \<lparr>data = [carol, dave], links_next = Some ''p2''\<rparr>,
              if data \<lparr>data = [carol, dave], links_next = Some ''p2''\<rparr> = [] then None
              else links_next \<lparr>data = [carol, dave], links_next = Some ''p2''\<rparr>),
         [''https://app.orbit.love/api/v1/ws/members?items=100''])"
    using request by blast
  then have page: "getMembersFromOrbit example_env ''secret'' ''ws'' [] []
     = (Inr ([carol, dave], Some ''p2''),
        [''https://app.orbit.love/api/v1/ws/members?items=100''])"
    by (simp add: example_config_def)
  have "\<exists>n responses. fetch_responses example_env (token (example_config ''ws''))
            (workspaceSlug (example_config ''ws'')) n (Some []) []
          = (Inr (responses, None),
             [''https://app.orbit.love/api/v1/ws/members?items=100'', ''p2''])
        \<and> [carol, dave, bob_new] = concat (map data responses)"
    using example_responses_ws
    by (intro exI [of _ 2] exI [of _ "[\<lparr>data = [carol, dave], links_next = Some ''p2''\<rparr>,
              \<lparr>data = [bob_new], links_next = None\<rparr>]"])
       (simp add: example_config_def)
  with spec have "getAllMembers example_env (example_config ''ws'') []
     = Some (Inr [carol, dave, bob_new],
             [''https://app.orbit.love/api/v1/ws/members?items=100'', ''p2''])"
    by blast
  with page show ?thesis by simp
qed

lemma failing_request:
  assumes "http_members env w (page_link s link) (''Bearer '' @ t) = (r, w')"
    and "r = TransportFailure c \<and> cause = AxiosNetworkError c \<or>
         (\<exists>response. r = HttpResponse st response) \<and> (st < 200 \<or> 300 \<le> st) \<and>
           cause = AxiosStatusError st"
  shows "getMembersFromOrbit env t s link w
           = (Inl (DendronError (stringifyError env cause) MINOR), w')"
  using assms by (auto simp: getMembersFromOrbit_def axios_get_def)

text \<open>
  C9. When, after any number of fetched pages, the request for the next page fails in
  transport or is answered with a status outside 2xx, the page fetch raises a
  \<open>DendronError\<close> of severity \<open>MINOR\<close> whose message is the stringified cause; the
  world is as that one request left it (no retry, no further page); \<open>getAllMembers\<close>
  and the whole run \<open>plant\<close> end with that error, and the run touches neither the
  store nor the decision source.
\<close>

theorem fetch_failure_aborts:
  assumes "fetch_pages env (token config) (workspaceSlug config) n (Some []) w
             = (Inr (pages, Some link), w1)"
    and "http_members env w1 (page_link (workspaceSlug config) link)
           (''Bearer '' @ token config) = (r, w2)"
    and "r = TransportFailure c \<and> cause = AxiosNetworkError c \<or>
         (\<exists>response. r = HttpResponse st response) \<and> (st < 200 \<or> 300 \<le> st) \<and>
           cause = AxiosStatusError st"
    and "orbitId config = None"
  shows "getMembersFromOrbit env (token config) (workspaceSlug config) link w1
           = (Inl (DendronError (stringifyError env cause) MINOR), w2) \<and>
         getAllMembers env config w
           = Some (Inl (DendronError (stringifyError env cause) MINOR), w2) \<and>
         plant env config w engine d
           = Some (Inl (DendronError (stringifyError env cause) MINOR), w2, engine, d)"
proof -
  have page: "getMembersFromOrbit env (token config) (workspaceSlug config) link w1
           = (Inl (DendronError (stringifyError env cause) MINOR), w2)"
    using assms(2,3) by (rule failing_request)
  have "getAllMembers env config w
          = getAllMembers_loop env (token config) (workspaceSlug config) (Some link)
              ([] @ concat pages) w1"
    unfolding getAllMembers_def using assms(1) by (rule loop_fetch_pages)
  also have "\<dots> = Some (Inl (DendronError (stringifyError env cause) MINOR), w2)"
    using page by (subst getAllMembers_loop.simps) simp
  finally have all: "getAllMembers env config w
           = Some (Inl (DendronError (stringifyError env cause) MINOR), w2)" .
  then have "plant env config w engine d
           = Some (Inl (DendronError (stringifyError env cause) MINOR), w2, engine, d)"
    using assms(4) by (simp add: plant_def)
  with page all show ?thesis by simp
qed

lemma example_pages_down:
  "fetch_pages example_env ''secret'' ''down'' 1 (Some []) []
     = (Inr ([[carol]], Some ''d2''),
        [''https://app.orbit.love/api/v1/down/members?items=100''])"
  by (simp add: getMembersFromOrbit_def axios_get_def page_link_def
        example_env_def env_with_def remote_pages_def)

theorem fetch_failure_aborts_witness:
  "getMembersFromOrbit example_env ''secret'' ''down'' ''d2''
       [''https://app.orbit.love/api/v1/down/members?items=100'']
     = (Inl (DendronError ''Request failed'' MINOR),
        [''https://app.orbit.love/api/v1/down/members?items=100'', ''d2'']) \<and>
   getAllMembers example_env (example_config ''down'') []
     = Some (Inl (DendronError ''Request failed'' MINOR),
             [''https://app.orbit.love/api/v1/down/members?items=100'', ''d2'']) \<and>
   plant example_env (example_config ''down'') [] (example_engine []) [Some SKIP]
     = Some (Inl (DendronError ''Request failed'' MINOR),
             [''https://app.orbit.love/api/v1/down/members?items=100'', ''d2''],
             example_engine [], [Some SKIP])"
proof -
  have chain: "fetch_pages example_env (token (example_config ''down''))
        (workspaceSlug (example_config ''down'')) 1 (Some []) []
      = (Inr ([[carol]], Some ''d2''),
         [''https://app.orbit.love/api/v1/down/members?items=100''])"
    using example_pages_down by (simp add: example_config_def)
  have request: "http_members example_env
        [''https://app.orbit.love/api/v1/down/members?items=100'']
        (page_link (workspaceSlug (example_config ''down'')) ''d2'')
        (''Bearer '' @ token (example_config ''down''))
      = (HttpResponse 503 \<lparr>data = [], links_next = None\<rparr>,
         [''https://app.orbit.love/api/v1/down/members?items=100'', ''d2''])"
    by (simp add: example_env_def env_with_def remote_pages_def page_link_def)
  have status: "HttpResponse 503 \<lparr>data = [], links_next = None\<rparr> = TransportFailure []
          \<and> AxiosStatusError 503 = AxiosNetworkError [] \<or>
        (\<exists>response. HttpResponse 503 \<lparr>data = [], links_next = None\<rparr>
            = HttpResponse 503 response) \<and>
        ((503::nat) < 200 \<or> 300 \<le> (503::nat)) \<and> AxiosStatusError 503 = AxiosStatusError 503"
    by simp
  have none: "orbitId (example_config ''down'') = None"
    by (simp add: example_config_def)
  from fetch_failure_aborts [OF chain request status none,
      of "example_engine []" "[Some SKIP]"]
  show ?thesis by (simp add: example_config_def example_env_def env_with_def)
qed

text \<open>
  C10. A page whose data array is empty makes the page fetch return the end marker as the
  next cursor, whatever the response's \<open>links.next\<close> is; \<open>getAllMembers\<close> then
  returns the records accumulated so far, and the world is as the request for the empty
  page left it: no later page is requested.
\<close>

theorem empty_page_ends_pagination:
  assumes "fetch_pages env (token config) (workspaceSlug config) n (Some []) w
             = (Inr (pages, Some link), w1)"
    and "http_members env w1 (page_link (workspaceSlug config) link)
           (''Bearer '' @ token config) = (HttpResponse st response, w2)"
    and "200 \<le> st" and "st < 300"
    and "data response = []"
  shows "getMembersFromOrbit env (token config) (workspaceSlug config) link w1
           = (Inr ([], None), w2) \<and>
         getAllMembers env config w = Some (Inr (concat pages), w2)"
proof -
  have page: "getMembersFromOrbit env (token config) (workspaceSlug config) link w1
           = (Inr ([], None), w2)"
    using assms(2-5) by (simp add: getMembersFromOrbit_def axios_get_def)
  have "getAllMembers env config w
          = getAllMembers_loop env (token config) (workspaceSlug config) (Some link)
              ([] @ concat pages) w1"
    unfolding getAllMembers_def using assms(1) by (rule loop_fetch_pages)
  also have "\<dots> = Some (Inr (concat pages), w2)"
    using page by (simp add: getAllMembers_loop.simps)
  finally show ?thesis using page by simp
qed

lemma example_pages_gap:
  "fetch_pages example_env ''secret'' ''gap'' 1 (Some []) []
     = (Inr ([[carol]], Some ''g2''),
        [''https://app.orbit.love/api/v1/gap/members?items=100''])"
  by (simp add: getMembersFromOrbit_def axios_get_def page_link_def
        example_env_def env_with_def remote_pages_def)

theorem empty_page_ends_pagination_witness:
  "links_next \<lparr>data = [], links_next = Some ''g3''\<rparr> = Some ''g3'' \<and>
   getMembersFromOrbit example_env ''secret'' ''gap'' ''g2''
       [''https://app.orbit.love/api/v1/gap/members?items=100'']
     = (Inr ([], None), [''https://app.orbit.love/api/v1/gap/members?items=100'', ''g2'']) \<and>
   getAllMembers example_env (example_config ''gap'') []
     = Some (Inr [carol], [''https://app.orbit.love/api/v1/gap/members?items=100'', ''g2''])"
proof -
  have chain: "fetch_pages example_env (token (example_config ''gap''))
        (workspaceSlug (example_config ''gap'')) 1 (Some []) []
      = (Inr ([[carol]], Some ''g2''),
         [''https://app.orbit.love/api/v1/gap/members?items=100''])"
    using example_pages_gap by (simp add: example_config_def)
  have request: "http_members example_env
        [''https://app.orbit.love/api/v1/gap/members?items=100'']
        (page_link (workspaceSlug (example_config ''gap'')) ''g2'')
        (''Bearer '' @ token (example_config ''gap''))
      = (HttpResponse 200 \<lparr>data = [], links_next = Some ''g3''\<rparr>,
         [''https://app.orbit.love/api/v1/gap/members?items=100'', ''g2''])"
    by (simp add: example_env_def env_with_def remote_pages_def page_link_def)
  from empty_page_ends_pagination [OF chain request]
  show ?thesis by (simp add: example_config_def)
qed

section \<open>The reconciliation planner\<close>

lemma member_step_plan:
  "member_step env config engine m (cs, cr, up) =
     (cs @ fst (plan_member env config engine m),
      cr @ fst (snd (plan_member env config engine m)),
      up @ snd (snd (plan_member env config engine m)))"
  by (simp add: plan_member_def member_step_def Let_def split: option.splits)

lemma fold_member_step:
  "fold (member_step env config engine) members (cs, cr, up) =
     (cs @ concat (map (\<lambda>m. fst (plan_member env config engine m)) members),
      cr @ concat (map (\<lambda>m. fst (snd (plan_member env config engine m))) members),
      up @ concat (map (\<lambda>m. snd (snd (plan_member env config engine m))) members))"
  by (induction members arbitrary: cs cr up) (simp_all add: member_step_plan)

lemma plan_member_absent:
  "lookupNote config engine (cleanName (cleanFname env) m) = None \<Longrightarrow>
   plan_member env config engine m =
     ([], [NoteUtils_create (''people.'' @ cleanName (cleanFname env) m)
             (orbitData env m (frontmatter config)) []], [])"
  by (simp add: plan_member_def member_step_def)

lemma plan_member_update:
  "lookupNote config engine (cleanName (cleanFname env) m) = Some n \<Longrightarrow>
   getConflictedData n m = [] \<Longrightarrow>
   plan_member env config engine m =
     ([], [], [(lookup_name config engine (cleanName (cleanFname env) m), n, m)])"
  by (simp add: plan_member_def member_step_def Let_def)

lemma plan_member_conflict:
  "lookupNote config engine (cleanName (cleanFname env) m) = Some n \<Longrightarrow>
   getConflictedData n m \<noteq> [] \<Longrightarrow>
   plan_member env config engine m =
     ([(lookup_name config engine (cleanName (cleanFname env) m),
        \<lparr>conflictNote = n,
         conflictEntry =
           NoteUtils_create
             (''people.orbit.duplicate.'' @ today env @ ''.'' @ cleanName (cleanFname env) m)
             (orbitData env m (spread (frontmatter config) (custom_other n))) (body n),
         conflictData = getConflictedData n m\<rparr>)], [], [])"
  by (simp add: plan_member_def member_step_def Let_def)

lemma membersToNotes_create:
  assumes "membersToNotes env config engine members = (Inr (create, conflicts), engine1)"
  shows "create = concat (map (\<lambda>m. fst (snd (plan_member env config engine m))) members)"
  using assms
  by (auto simp: membersToNotes_def fold_member_step split: prod.splits option.splits)

lemma membersToNotes_buckets:
  assumes "membersToNotes env config engine members = (Inr (create, conflicts), engine1)"
  shows "\<exists>objs.
           conflicts =
             map (\<lambda>(ref, c). c\<lparr>conflictNote := deref objs ref (conflictNote c)\<rparr>)
               (concat (map (\<lambda>m. fst (plan_member env config engine m)) members)) \<and>
           update_all (concat (map (\<lambda>m. snd (snd (plan_member env config engine m))) members))
             engine = (None, objs, engine1)"
  using assms
  by (auto simp: membersToNotes_def fold_member_step split: prod.splits option.splits)

lemma conflict_entry:
  assumes "(ref, c) \<in> set (fst (plan_member env config engine m))"
  shows "ref = lookup_name config engine (cleanName (cleanFname env) m) \<and>
         lookupNote config engine (cleanName (cleanFname env) m) = Some (conflictNote c) \<and>
         social_of (conflictEntry c) = Some (getSocialAttributes m) \<and>
         conflictData c = getConflictedData (conflictNote c) m \<and> conflictData c \<noteq> []"
proof (cases "lookupNote config engine (cleanName (cleanFname env) m)")
  case None
  with assms show ?thesis by (simp add: plan_member_absent)
next
  case (Some found)
  with assms show ?thesis
    by (cases "getConflictedData found m = []")
       (simp_all add: plan_member_update plan_member_conflict NoteUtils_create_def
          orbitData_def social_of_def Let_def)
qed



lemma created_names_of_plan:
  "map fname (fst (snd (plan_member env config engine m))) =
     (if lookupNote config engine (cleanName (cleanFname env) m) = None
      then [''people.'' @ cleanName (cleanFname env) m] else [])"
proof (cases "lookupNote config engine (cleanName (cleanFname env) m)")
  case None
  then show ?thesis by (simp add: plan_member_absent NoteUtils_create_def)
next
  case (Some found)
  then show ?thesis
    by (cases "getConflictedData found m = []")
       (simp_all add: plan_member_update plan_member_conflict)
qed

lemma map_concat_if:
  "(\<And>x. map f (g x) = (if P x then [h x] else [])) \<Longrightarrow>
   map f (concat (map g xs)) = map h (filter P xs)"
  by (induction xs) simp_all

text \<open>
  C2 (as amended). In fast mode a configured, non-empty \<open>destName\<close> is the name every
  record of the batch is looked up under, instead of the derived \<open>people.<name>\<close>. A
  newly created node is always named \<open>people.<name>\<close>, whatever \<open>destName\<close> is: the
  created nodes are named after exactly the records whose lookup found nothing, in order.
\<close>

theorem destName_lookup_only:
  "(fastMode engine \<and> destName config = Some d \<and> d \<noteq> [] \<longrightarrow>
      (\<forall>noteName. lookupNote config engine noteName = getNoteByFile engine d)) \<and>
   (\<forall>create conflicts engine1.
      membersToNotes env config engine members = (Inr (create, conflicts), engine1) \<longrightarrow>
      map fname create =
        map (\<lambda>m. ''people.'' @ cleanName (cleanFname env) m)
          (filter (\<lambda>m. lookupNote config engine (cleanName (cleanFname env) m) = None) members))"
proof (intro conjI allI impI)
  fix noteName
  assume "fastMode engine \<and> destName config = Some d \<and> d \<noteq> []"
  then show "lookupNote config engine noteName = getNoteByFile engine d"
    by (simp add: lookupNote_def)
next
  fix create conflicts engine1
  assume "membersToNotes env config engine members = (Inr (create, conflicts), engine1)"
  from membersToNotes_create [OF this]
  show "map fname create =
        map (\<lambda>m. ''people.'' @ cleanName (cleanFname env) m)
          (filter (\<lambda>m. lookupNote config engine (cleanName (cleanFname env) m) = None) members)"
    by (simp add: map_concat_if [where g = "\<lambda>m. fst (snd (plan_member env config engine m))",
          OF created_names_of_plan])
qed

lemma vip_plan:
  "membersToNotes example_env vip_config (fast_engine []) [carol]
     = (Inr ([NoteUtils_create ''people.carol'' (orbitData example_env carol []) []], []),
        fast_engine [])"
  by (simp add: membersToNotes_def member_step_def update_all_def lookupNote_def
        getNoteByFile_def cleanName_def js_or_def js_or_str_def getNameFromEmail_def
        example_env_def env_with_def vip_config_def example_config_def fast_engine_def
        carol_def member_of_def Let_def)

theorem destName_lookup_only_counterexample:
  "destName vip_config = Some ''vip'' \<and>
   lookupNote vip_config (fast_engine []) ''carol'' = getNoteByFile (fast_engine []) ''vip'' \<and>
   map fname (fst (projr (fst (membersToNotes example_env vip_config (fast_engine []) [carol]))))
     = [''people.carol'']"
  by (simp add: vip_plan NoteUtils_create_def)
     (simp add: vip_config_def example_config_def lookupNote_def fast_engine_def)

theorem destName_lookup_only_witness:
  "lookupNote vip_config (fast_engine [(''vip'', bare_note)]) ''carol'' = Some bare_note \<and>
   map fname [NoteUtils_create ''people.carol'' (orbitData example_env carol []) []]
     = [''people.carol'']"
proof -
  have h: "fastMode (fast_engine [(''vip'', bare_note)]) \<and> destName vip_config = Some ''vip'' \<and>
           ''vip'' \<noteq> []"
    by (simp add: fast_engine_def vip_config_def example_config_def)
  have lookup: "lookupNote vip_config (fast_engine []) (cleanName (cleanFname example_env) carol)
                  = None"
    by (simp add: lookupNote_def vip_config_def example_config_def fast_engine_def
          getNoteByFile_def)
  have name: "cleanName (cleanFname example_env) carol = ''carol''"
    by (simp add: cleanName_def js_or_def js_or_str_def getNameFromEmail_def
          example_env_def env_with_def carol_def member_of_def Let_def)
  from destName_lookup_only [of "fast_engine [(''vip'', bare_note)]" vip_config "''vip''"
      example_env "[carol]"] h
  have a: "lookupNote vip_config (fast_engine [(''vip'', bare_note)]) ''carol'' = Some bare_note"
    by (simp add: getNoteByFile_def fast_engine_def)
  from destName_lookup_only [of "fast_engine []" vip_config "''vip''" example_env "[carol]"]
    vip_plan lookup name
  have b: "map fname [NoteUtils_create ''people.carol'' (orbitData example_env carol []) []]
     = [''people.carol'']"
    by simp
  from a b show ?thesis by simp
qed

section \<open>The sequential conflict resolver\<close>

lemma resolve_in_range:
  assumes "index < length conflicts"
  shows "resolve env config conflicts index engine d =
     (case (if overwriteAll config then (Some OVERWRITE_LOCAL, d)
            else handleConflict env (Some (conflicts ! index)) d) of
        (Some OVERWRITE_LOCAL, d') \<Rightarrow>
          (Inr index, writeNote (overwrite_entry (conflicts ! index)) engine, d')
      | (Some SKIP, d') \<Rightarrow> (Inr index, engine, d')
      | (Some SKIP_ALL, d') \<Rightarrow> (Inr (length conflicts), engine, d')
      | (None, d') \<Rightarrow> (Inr index, engine, d'))"
  using assms
  by (simp add: resolve_def Let_def split: prod.splits option.splits MergeConflictOptions.splits)

lemma onConflict_drain:
  "index < length conflicts \<Longrightarrow>
   onConflict env config conflicts index resolved engine d =
     (case drain env config (drop index conflicts) engine d of
        (engine', d') \<Rightarrow> (Inr resolved, engine', d'))"
proof (induction "length conflicts - index" arbitrary: index engine d)
  case 0
  then show ?case by simp
next
  case (Suc n)
  from Suc.prems have dr: "drop index conflicts = conflicts ! index # drop (Suc index) conflicts"
    by (simp add: Cons_nth_drop_Suc)
  obtain resp d1 where ask: "(if overwriteAll config then (Some OVERWRITE_LOCAL, d)
            else handleConflict env (Some (conflicts ! index)) d) = (resp, d1)"
    by (cases "(if overwriteAll config then (Some OVERWRITE_LOCAL, d)
            else handleConflict env (Some (conflicts ! index)) d)")
  have last: "drop (Suc index) conflicts = []" if "\<not> Suc index < length conflicts"
    using that by simp
  have IH: "onConflict env config conflicts (Suc index) resolved e' d' =
     (case drain env config (drop (Suc index) conflicts) e' d' of
        (engine', d') \<Rightarrow> (Inr resolved, engine', d'))" if "Suc index < length conflicts" for e' d'
    using Suc.hyps(1) [of "Suc index" e' d'] Suc.hyps(2) that by simp
  have cond: "(int index < int (length conflicts) - 1) = (Suc index < length conflicts)"
    by auto
  show ?case
    apply (subst onConflict.simps)
    apply (simp only: resolve_in_range [OF Suc.prems] ask dr drain.simps)
    apply (cases resp)
     apply (cases "Suc index < length conflicts")
      apply (simp add: cond IH)
     apply (simp add: cond last)
    subgoal for r
      apply (cases r; cases "Suc index < length conflicts")
           apply (simp_all add: cond IH last)
      done
    done
qed


lemma commits_of_Cons:
  "commits_of ((Some c, r) # asked) =
     (if r = Some OVERWRITE_LOCAL then [WriteNote (overwrite_entry c)] else []) @ commits_of asked"
  by (cases r) (auto simp: commits_of_def split: MergeConflictOptions.splits)

lemma commits_of_Nil: "commits_of [] = []"
  by (simp add: commits_of_def)

lemma calls_writeNote: "calls (writeNote n engine) = calls engine @ [WriteNote n]"
  by (simp add: writeNote_def)

lemma drain_recording:
  assumes "\<not> overwriteAll config" and "handleConflict env = recording h"
  shows "drain env config queue engine (d, asked0) = (engine', d', asked) \<Longrightarrow>
         \<exists>new. asked = asked0 @ new \<and>
           map fst new = map Some (take (length new) queue) \<and>
           Some SKIP_ALL \<notin> set (map snd (butlast new)) \<and>
           (length new = length queue \<or> (new \<noteq> [] \<and> snd (last new) = Some SKIP_ALL)) \<and>
           calls engine' = calls engine @ commits_of new"
proof (induction queue arbitrary: engine d asked0)
  case Nil
  then show ?case by (simp add: commits_of_Nil)
next
  case (Cons c queue)
  obtain r d1 where h: "h (Some c) d = (r, d1)" by (cases "h (Some c) d")
  have ask: "(if overwriteAll config then (Some OVERWRITE_LOCAL, (d, asked0))
              else handleConflict env (Some c) (d, asked0))
             = (r, d1, asked0 @ [(Some c, r)])"
    using assms h by (simp add: recording_def)
  show ?case
  proof (cases "r = Some SKIP_ALL")
    case True
    with Cons.prems ask have "engine' = engine" "asked = asked0 @ [(Some c, r)]"
      by simp_all
    then have "asked = asked0 @ [(Some c, r)] \<and>
           map fst [(Some c, r)] = map Some (take (length [(Some c, r)]) (c # queue)) \<and>
           Some SKIP_ALL \<notin> set (map snd (butlast [(Some c, r)])) \<and>
           (length [(Some c, r)] = length (c # queue) \<or>
             ([(Some c, r)] \<noteq> [] \<and> snd (last [(Some c, r)]) = Some SKIP_ALL)) \<and>
           calls engine' = calls engine @ commits_of [(Some c, r)]"
      using True by (simp add: commits_of_Cons commits_of_Nil)
    then show ?thesis by blast
  next
    case False
    define engine1 where
      "engine1 = (if r = Some OVERWRITE_LOCAL then writeNote (overwrite_entry c) engine else engine)"
    have "drain env config (c # queue) engine (d, asked0)
            = drain env config queue engine1 (d1, asked0 @ [(Some c, r)])"
      using False ask unfolding engine1_def
      by (cases r) (auto split: MergeConflictOptions.splits)
    with Cons.prems have
      "drain env config queue engine1 (d1, asked0 @ [(Some c, r)]) = (engine', d', asked)"
      by simp
    from Cons.IH [OF this] obtain new where
      new: "asked = (asked0 @ [(Some c, r)]) @ new"
        "map fst new = map Some (take (length new) queue)"
        "Some SKIP_ALL \<notin> set (map snd (butlast new))"
        "length new = length queue \<or> (new \<noteq> [] \<and> snd (last new) = Some SKIP_ALL)"
        "calls engine' = calls engine1 @ commits_of new"
      by blast
    have c1: "calls engine1 = calls engine @
               (if r = Some OVERWRITE_LOCAL then [WriteNote (overwrite_entry c)] else [])"
      by (simp add: engine1_def calls_writeNote)
    have "asked = asked0 @ ((Some c, r) # new) \<and>
           map fst ((Some c, r) # new)
             = map Some (take (length ((Some c, r) # new)) (c # queue)) \<and>
           Some SKIP_ALL \<notin> set (map snd (butlast ((Some c, r) # new))) \<and>
           (length ((Some c, r) # new) = length (c # queue) \<or>
             ((Some c, r) # new \<noteq> [] \<and> snd (last ((Some c, r) # new)) = Some SKIP_ALL)) \<and>
           calls engine' = calls engine @ commits_of ((Some c, r) # new)"
      using new False c1 by (auto simp: commits_of_Cons)
    then show ?thesis by blast
  qed
qed


text \<open>
  C5. Run against any decision source whose questions and answers are recorded, the
  resolver over a non-empty queue asks about the entries in queue order, each once. If
  \<open>SKIP_ALL\<close> is the answer at index \<open>k\<close>, entry \<open>k\<close> is the last one asked: no
  decision is requested for an entry beyond \<open>k\<close>. The commits are exactly those the
  \<open>OVERWRITE_LOCAL\<close> answers call for, in order, so none is issued for the skipped tail;
  and the resolver returns. It stops only at the end of the queue or on \<open>SKIP_ALL\<close>.
\<close>

theorem skip_all_ends_resolution:
  assumes "\<not> overwriteAll config" and "handleConflict env = recording h"
    and "conflicts \<noteq> []"
    and "onConflict env config conflicts 0 resolved engine (d, []) = (res, engine', d', asked)"
  shows "res = Inr resolved \<and>
         map fst asked = map Some (take (length asked) conflicts) \<and>
         (\<forall>k < length asked. snd (asked ! k) = Some SKIP_ALL \<longrightarrow> length asked = Suc k) \<and>
         (length asked = length conflicts \<or> snd (last asked) = Some SKIP_ALL) \<and>
         calls engine' = calls engine @ commits_of asked"
proof -
  from assms(3) have "0 < length conflicts" by simp
  from onConflict_drain [OF this, of env config resolved engine "(d, [])"] assms(4)
  have res: "res = Inr resolved"
    and dr: "drain env config conflicts engine (d, []) = (engine', d', asked)"
    by (auto split: prod.splits)
  from drain_recording [OF assms(1,2) dr] have
    a: "map fst asked = map Some (take (length asked) conflicts)"
    and b: "Some SKIP_ALL \<notin> set (map snd (butlast asked))"
    and c: "length asked = length conflicts \<or> snd (last asked) = Some SKIP_ALL"
    and e: "calls engine' = calls engine @ commits_of asked"
    by auto
  have "length asked = Suc k" if "k < length asked" "snd (asked ! k) = Some SKIP_ALL" for k
  proof (rule ccontr)
    assume "length asked \<noteq> Suc k"
    with that(1) have k: "k < length (butlast asked)" by simp
    then have "butlast asked ! k = asked ! k" by (simp add: nth_butlast)
    with k that(2) have "Some SKIP_ALL \<in> set (map snd (butlast asked))"
      by (metis (no_types, lifting) length_map nth_map nth_mem)
    with b show False by contradiction
  qed
  with res a c e show ?thesis by blast
qed

lemma skip_all_run_value:
  "skip_all_run =
     (Inr (map conflictNote queue3),
      writeNote (overwrite_entry (conflict_of ''ann'' ''a1'' ''a2'')) (example_engine []),
      [Some OVERWRITE_LOCAL],
      [(Some (conflict_of ''ann'' ''a1'' ''a2''), Some OVERWRITE_LOCAL),
       (Some (conflict_of ''bo'' ''b1'' ''b2''), Some SKIP_ALL)])"
  by (simp add: skip_all_run_def onConflict.simps resolve_def queue3_def env_with_def
        recording_def scripted_def example_config_def)

theorem skip_all_ends_resolution_witness:
  "fst skip_all_run = Inr (map conflictNote queue3) \<and>
   snd (snd (snd (snd skip_all_run)) ! 1) = Some SKIP_ALL \<and>
   length (snd (snd (snd skip_all_run))) = Suc 1 \<and>
   calls (fst (snd skip_all_run))
     = [WriteNote (overwrite_entry (conflict_of ''ann'' ''a1'' ''a2''))]"
proof -
  have h1: "\<not> overwriteAll (example_config ''ws'')" by (simp add: example_config_def)
  have h2: "handleConflict (env_with (recording scripted)) = recording scripted"
    by (simp add: env_with_def)
  have h3: "queue3 \<noteq> []" by (simp add: queue3_def)
  note run = skip_all_run_value [unfolded skip_all_run_def]
  from skip_all_ends_resolution [OF h1 h2 h3 run]
  show ?thesis
    by (simp add: skip_all_run_value example_engine_def commits_of_Cons commits_of_Nil)
qed

section \<open>Updating a note without conflicts\<close>

lemma attr_val_simps [simp]: "attr_val None = JNull" "attr_val (Some s) = JStr s"
  by (simp_all add: attr_val_def)

lemma bag_get_bag_set:
  "bag_get (bag_set k v bag) key = (if key = k then v else bag_get bag key)"
  by (simp add: bag_get_def bag_set_def update_conv')

lemma fold_adopt:
  "distinct ks \<Longrightarrow> fold (adopt a) ks (bag, b) = (bag', b') \<Longrightarrow>
   (\<forall>key. bag_get bag' key =
      (if key \<in> set ks \<and> bag_get bag key = JNull \<and> socials a key \<noteq> None
       then attr_val (socials a key) else bag_get bag key)) \<and>
   b' = (b \<or> (\<exists>key \<in> set ks. bag_get bag key = JNull \<and> socials a key \<noteq> None))"
proof (induction ks arbitrary: bag b)
  case Nil
  then show ?case by simp
next
  case (Cons k ks)
  define bag1 where "bag1 = (if bag_get bag k = JNull \<and> socials a k \<noteq> None
                             then bag_set k (attr_val (socials a k)) bag else bag)"
  define b1 where "b1 = (b \<or> (bag_get bag k = JNull \<and> socials a k \<noteq> None))"
  have step: "adopt a k (bag, b) = (bag1, b1)"
    by (auto simp: adopt_def bag1_def b1_def)
  have same: "bag_get bag1 key = bag_get bag key" if "key \<noteq> k" for key
    using that by (simp add: bag1_def bag_get_bag_set)
  have at_k: "bag_get bag1 k = (if bag_get bag k = JNull \<and> socials a k \<noteq> None
                                then attr_val (socials a k) else bag_get bag k)"
    by (auto simp: bag1_def bag_get_bag_set)
  from Cons.prems have d: "distinct ks" "k \<notin> set ks" by simp_all
  from Cons.prems step have "fold (adopt a) ks (bag1, b1) = (bag', b')" by simp
  from Cons.IH [OF d(1) this] have
    IH1: "\<And>key. bag_get bag' key =
      (if key \<in> set ks \<and> bag_get bag1 key = JNull \<and> socials a key \<noteq> None
       then attr_val (socials a key) else bag_get bag1 key)"
    and IH2: "b' = (b1 \<or> (\<exists>key \<in> set ks. bag_get bag1 key = JNull \<and> socials a key \<noteq> None))"
    by simp_all
  have "bag_get bag' key =
      (if key \<in> set (k # ks) \<and> bag_get bag key = JNull \<and> socials a key \<noteq> None
       then attr_val (socials a key) else bag_get bag key)" for key
  proof (cases "key = k")
    case True
    with IH1 [of k] d(2) at_k show ?thesis by simp
  next
    case False
    with IH1 [of key] same [OF False] show ?thesis by simp
  qed
  moreover have "b' = (b \<or> (\<exists>key \<in> set (k # ks). bag_get bag key = JNull \<and> socials a key \<noteq> None))"
    using IH2 d(2) same unfolding b1_def by (metis list.set_intros(1) set_ConsD list.set_intros(2))
  ultimately show ?case by blast
qed

lemma stored_custom:
  "custom n = Some c \<Longrightarrow>
   stored n key = bag_get (case social c of None \<Rightarrow> [] | Some b \<Rightarrow> b) key"
  by (simp add: stored_def social_of_def bag_get_def split: option.splits)

lemma distinct_SocialKeys_values: "distinct SocialKeys_values"
  by (simp add: SocialKeys_values_def)

lemma updateNoteData_result:
  assumes "custom n = Some c"
  shows "\<exists>n'. updateNoteData n m engine =
            (Inr n',
             if \<exists>key. stored n key = JNull \<and> socials (attributes m) key \<noteq> None
             then writeNote n' engine else engine) \<and>
          fname n' = fname n \<and> body n' = body n \<and> custom n' \<noteq> None \<and>
          (\<forall>key. stored n' key =
             (if stored n key = JNull \<and> socials (attributes m) key \<noteq> None
              then attr_val (socials (attributes m) key) else stored n key))"
proof -
  define bag0 where "bag0 = (case social c of None \<Rightarrow> [] | Some b \<Rightarrow> b)"
  obtain bag' b' where f: "fold (adopt (attributes m)) SocialKeys_values (bag0, False) = (bag', b')"
    by (cases "fold (adopt (attributes m)) SocialKeys_values (bag0, False)")
  from fold_adopt [OF distinct_SocialKeys_values f] have
    bag': "\<And>key. bag_get bag' key =
      (if bag_get bag0 key = JNull \<and> socials (attributes m) key \<noteq> None
       then attr_val (socials (attributes m) key) else bag_get bag0 key)"
    and b': "b' = (\<exists>key. bag_get bag0 key = JNull \<and> socials (attributes m) key \<noteq> None)"
    by (auto simp: SocialKeys_values_all)
  define n' where "n' = n\<lparr>custom := Some (c\<lparr>social := Some bag'\<rparr>)\<rparr>"
  have st: "stored n key = bag_get bag0 key" for key
    using assms by (simp add: stored_custom bag0_def)
  have st': "stored n' key = bag_get bag' key" for key
    by (simp add: n'_def stored_def social_of_def)
  have "updateNoteData n m engine = (Inr n', if b' then writeNote n' engine else engine)"
    using assms f by (simp add: updateNoteData_def bag0_def [symmetric] n'_def Let_def)
  then show ?thesis
    using bag' b' st st' by (intro exI [of _ n']) (auto simp: n'_def)
qed


text \<open>
  C4 (as amended). For a note with custom front matter, \<open>updateNoteData\<close> adopts the
  record's value for exactly the social fields the note stores as null and the record has
  a value for; every other field, in particular one that is undefined because the bag or
  its key is missing, is left as it is. The update commit is issued if and only if at least
  one field changed value.
\<close>

theorem updateNoteData_adopts_null:
  assumes "custom n = Some c" and "updateNoteData n m engine = (r, engine')"
  shows "\<exists>n'. r = Inr n' \<and> fname n' = fname n \<and>
           (\<forall>key. stored n' key =
              (if stored n key = JNull \<and> socials (attributes m) key \<noteq> None
               then attr_val (socials (attributes m) key) else stored n key)) \<and>
           engine' = (if \<exists>key. stored n' key \<noteq> stored n key
                      then writeNote n' engine else engine)"
proof -
  from updateNoteData_result [OF assms(1), of m engine] assms(2) obtain n' where
    r: "r = Inr n'"
    and e: "engine' = (if \<exists>key. stored n key = JNull \<and> socials (attributes m) key \<noteq> None
                       then writeNote n' engine else engine)"
    and f: "fname n' = fname n"
    and st: "\<And>key. stored n' key =
             (if stored n key = JNull \<and> socials (attributes m) key \<noteq> None
              then attr_val (socials (attributes m) key) else stored n key)"
    by auto
  have "stored n' key \<noteq> stored n key \<longleftrightarrow>
        stored n key = JNull \<and> socials (attributes m) key \<noteq> None" for key
    using st [of key] by (cases "socials (attributes m) key") auto
  then have "(\<exists>key. stored n' key \<noteq> stored n key) \<longleftrightarrow>
        (\<exists>key. stored n key = JNull \<and> socials (attributes m) key \<noteq> None)"
    by simp
  with r e f st show ?thesis by simp
qed

theorem updateNoteData_adopts_null_counterexample:
  "stored (note_of ''people.dave'' (Some [])) github = JUndefined \<and>
   attr_val (socials (attributes dave) github) = JStr ''dave'' \<and>
   updateNoteData (note_of ''people.dave'' (Some [])) dave (example_engine [])
     = (Inr (note_of ''people.dave'' (Some [])), example_engine [])"
  by (simp add: stored_def social_of_def note_of_def bag_get_def dave_def member_of_def
        updateNoteData_def SocialKeys_values_def adopt_def)

theorem updateNoteData_adopts_null_witness:
  "stored (note_of ''people.dave'' (Some [(twitter, JStr ''dave_t'')])) twitter = JStr ''dave_t'' \<and>
   stored (note_of ''people.dave'' (Some [(twitter, JStr ''dave_t'')])) github = JUndefined \<and>
   updateNoteData (note_of ''people.dave'' (Some [(twitter, JNull)])) dave (example_engine [])
     = (Inr (note_of ''people.dave'' (Some [(twitter, JStr ''dave_t'')])),
        writeNote (note_of ''people.dave'' (Some [(twitter, JStr ''dave_t'')])) (example_engine []))"
proof -
  have c: "custom (note_of ''people.dave'' (Some [(twitter, JNull)]))
             = Some \<lparr>social = Some [(twitter, JNull)], custom_orbitId = None, orbit = None,
                     other = []\<rparr>"
    by (simp add: note_of_def)
  have run: "updateNoteData (note_of ''people.dave'' (Some [(twitter, JNull)])) dave
               (example_engine [])
     = (Inr (note_of ''people.dave'' (Some [(twitter, JStr ''dave_t'')])),
        writeNote (note_of ''people.dave'' (Some [(twitter, JStr ''dave_t'')])) (example_engine []))"
    by (simp add: note_of_def bag_get_def bag_set_def dave_def member_of_def
          updateNoteData_def SocialKeys_values_def adopt_def Let_def)
  from updateNoteData_adopts_null [OF c run] run
  show ?thesis
    by (simp add: stored_def social_of_def note_of_def bag_get_def)
qed

section \<open>The update phase\<close>

lemma synced_iff:
  "synced n m \<longleftrightarrow>
     custom n \<noteq> None \<and>
     (\<forall>key. stored n key = JUndefined \<or> stored n key = attr_val (socials (attributes m) key))"
  by (auto simp: synced_def list_all_iff SocialKeys_values_all)

lemma lookupNote_store:
  "lookupNote config engine noteName = engine_notes engine (lookup_name config engine noteName)"
  by (simp add: lookupNote_def lookup_name_def getNoteByFile_def getNoteByFnameV5_def)

lemma lookup_name_fastMode:
  "fastMode e' = fastMode e \<Longrightarrow> lookup_name config e' noteName = lookup_name config e noteName"
  by (simp add: lookup_name_def)

lemma lookup_name_cases:
  "(\<forall>noteName. lookup_name config engine noteName = ''people.'' @ noteName) \<or>
   (\<exists>d. \<forall>noteName. lookup_name config engine noteName = d)"
  by (auto simp: lookup_name_def split: option.splits)

lemma conflict_free:
  "getConflictedData n m = [] \<longleftrightarrow>
     (\<forall>key. stored n key = JNull \<or> stored n key = JUndefined \<or>
            stored n key = attr_val (socials (attributes m) key))"
proof (cases "social_of n")
  case None
  then show ?thesis
    by (simp add: getConflictedData_def stored_def social_of_def split: option.splits)
next
  case (Some bag)
  then have "getConflictedData n m =
     filter (\<lambda>key. (bag_get bag key \<noteq> JNull \<and> bag_get bag key \<noteq> JUndefined) \<and>
                   attr_val (socials (attributes m) key) \<noteq> bag_get bag key) SocialKeys_values"
    by (auto simp: getConflictedData_def social_of_def Let_def split: option.splits)
  with Some show ?thesis
    by (auto simp: filter_empty_conv SocialKeys_values_all stored_def)
qed

lemma bag_get_getSocialAttributes:
  "bag_get (getSocialAttributes m) key = attr_val (socials (attributes m) key)"
  by (cases key)
     (simp_all add: getSocialAttributes_def SocialKeys_values_def bag_set_def bag_get_def)

lemma synced_social:
  "custom n \<noteq> None \<Longrightarrow> social_of n = Some (getSocialAttributes m) \<Longrightarrow> synced n m"
  by (simp add: synced_iff stored_def bag_get_getSocialAttributes)

lemma fold_store_put:
  "fold store_put ws s k = Some x \<Longrightarrow>
     (x \<in> set ws \<and> fname x = k) \<or> (s k = Some x \<and> (\<forall>w \<in> set ws. fname w \<noteq> k))"
proof (induction ws arbitrary: x rule: rev_induct)
  case Nil
  then show ?case by simp
next
  case (snoc w ws)
  from snoc.prems have last: "store_put w (fold store_put ws s) k = Some x" by simp
  show ?case
  proof (cases "fname w = k")
    case True
    then have "store_put w (fold store_put ws s) k = Some w"
      by (simp add: store_put_def)
    with last True show ?thesis by simp
  next
    case False
    then have "store_put w (fold store_put ws s) k = fold store_put ws s k"
      by (simp add: store_put_def)
    with last have "fold store_put ws s k = Some x" by simp
    from snoc.IH [OF this] False show ?thesis by auto
  qed
qed






lemma updateNoteData_TypeError:
  "custom n = None \<Longrightarrow> updateNoteData n m e = (Inl TypeError, e)"
  by (simp add: updateNoteData_def)

lemma engine_notes_writeNote:
  "engine_notes (writeNote n e) = store_put n (engine_notes e)"
  "fastMode (writeNote n e) = fastMode e"
  by (simp_all add: writeNote_def)

lemma updateNoteData_Inr:
  assumes "updateNoteData n m e = (Inr n', e1)"
  shows "custom n \<noteq> None \<and> custom n' \<noteq> None \<and> fname n' = fname n \<and> body n' = body n \<and>
         (\<forall>key. stored n' key =
            (if stored n key = JNull \<and> socials (attributes m) key \<noteq> None
             then attr_val (socials (attributes m) key) else stored n key)) \<and>
         e1 = (if \<exists>key. stored n key = JNull \<and> socials (attributes m) key \<noteq> None
               then writeNote n' e else e)"
proof -
  have c: "custom n \<noteq> None"
  proof
    assume "custom n = None"
    from updateNoteData_TypeError [OF this, of m e] assms show False by simp
  qed
  then obtain cu where cu: "custom n = Some cu" by blast
  from updateNoteData_result [OF cu, of m e] assms c show ?thesis by auto
qed


lemma update_step_Inl:
  "updateNoteData (deref objs ref n) m e = (Inl x, e1) \<Longrightarrow>
   update_step (ref, n, m) (err, objs, e) = (if err = None then Some x else err, objs, e1)"
  by (simp add: update_step_def)

lemma update_step_Inr:
  "updateNoteData (deref objs ref n) m e = (Inr n', e1) \<Longrightarrow>
   update_step (ref, n, m) (err, objs, e) = (err, objs(ref \<mapsto> n'), e1)"
  by (simp add: update_step_def)

lemma fold_update_step_err:
  "fst (fold update_step ups (Some x, objs, e)) = Some x"
proof (induction ups arbitrary: objs e)
  case Nil
  show ?case by simp
next
  case (Cons a ups)
  obtain ref n m where a: "a = (ref, n, m)" by (cases a)
  obtain r e1 where u: "updateNoteData (deref objs ref n) m e = (r, e1)"
    by (cases "updateNoteData (deref objs ref n) m e")
  show ?case
  proof (cases r)
    case (Inl y)
    with u have "update_step a (Some x, objs, e) = (Some x, objs, e1)"
      by (simp add: a update_step_Inl)
    then have "fst (fold update_step (a # ups) (Some x, objs, e))
                 = fst (fold update_step ups (Some x, objs, e1))" by simp
    also have "\<dots> = Some x" by (rule Cons.IH)
    finally show ?thesis .
  next
    case (Inr n')
    with u have "update_step a (Some x, objs, e) = (Some x, objs(ref \<mapsto> n'), e1)"
      by (simp add: a update_step_Inr)
    then have "fst (fold update_step (a # ups) (Some x, objs, e))
                 = fst (fold update_step ups (Some x, objs(ref \<mapsto> n'), e1))" by simp
    also have "\<dots> = Some x" by (rule Cons.IH)
    finally show ?thesis .
  qed
qed

lemma fold_update_step_None:
  assumes "fold update_step ((ref, n, m) # ups) (None, objs, e) = (None, objs', e')"
  shows "\<exists>n' e1. updateNoteData (deref objs ref n) m e = (Inr n', e1) \<and>
                 fold update_step ups (None, objs(ref \<mapsto> n'), e1) = (None, objs', e')"
proof -
  obtain r e1 where u: "updateNoteData (deref objs ref n) m e = (r, e1)"
    by (cases "updateNoteData (deref objs ref n) m e")
  show ?thesis
  proof (cases r)
    case (Inl x)
    with u have "update_step (ref, n, m) (None, objs, e) = (Some x, objs, e1)"
      by (simp add: update_step_Inl)
    with assms have "fold update_step ups (Some x, objs, e1) = (None, objs', e')" by simp
    with fold_update_step_err [of ups x objs e1] show ?thesis by simp
  next
    case (Inr n')
    with u have "update_step (ref, n, m) (None, objs, e) = (None, objs(ref \<mapsto> n'), e1)"
      by (simp add: update_step_Inr)
    with assms u Inr show ?thesis by simp
  qed
qed


lemma update_fold_ok:
  "fold update_step ups (None, objs, e) = (None, objs', e') \<Longrightarrow>
   distinct (map fst ups) \<Longrightarrow> \<forall>a \<in> set ups. objs (fst a) = None \<Longrightarrow>
     \<exists>W. engine_notes e' = fold store_put W (engine_notes e) \<and> fastMode e' = fastMode e \<and>
         (\<forall>w \<in> set W. \<exists>(ref, n, m) \<in> set ups.
            fname w = fname n \<and> custom w \<noteq> None \<and>
            (\<forall>key. stored w key =
               (if stored n key = JNull \<and> socials (attributes m) key \<noteq> None
                then attr_val (socials (attributes m) key) else stored n key))) \<and>
         (\<forall>(ref, n, m) \<in> set ups.
            custom n \<noteq> None \<and>
            ((\<exists>key. stored n key = JNull \<and> socials (attributes m) key \<noteq> None)
               \<longrightarrow> (\<exists>w \<in> set W. fname w = fname n))) \<and>
         (\<forall>k. k \<notin> fst ` set ups \<longrightarrow> objs' k = objs k)"
proof (induction ups arbitrary: objs e)
  case Nil
  then have "engine_notes e' = fold store_put [] (engine_notes e) \<and> fastMode e' = fastMode e \<and>
             objs' = objs"
    by simp
  then show ?case by (intro exI [of _ "[]"]) simp
next
  case (Cons a ups)
  obtain ref n m where a: "a = (ref, n, m)" by (cases a)
  from Cons.prems(3) a have "objs ref = None" by simp
  then have cur: "deref objs ref n = n" by (simp add: deref_def)
  from fold_update_step_None [OF Cons.prems(1) [unfolded a]] cur obtain n0 e1 where
    u: "updateNoteData n m e = (Inr n0, e1)"
    and rest: "fold update_step ups (None, objs(ref \<mapsto> n0), e1) = (None, objs', e')"
    by auto
  define needs where
    "needs \<longleftrightarrow> (\<exists>key. stored n key = JNull \<and> socials (attributes m) key \<noteq> None)"
  from updateNoteData_Inr [OF u] have
    c: "custom n \<noteq> None"
    and e1: "e1 = (if needs then writeNote n0 e else e)"
    and n0: "fname n0 = fname n" "custom n0 \<noteq> None"
      "\<And>key. stored n0 key =
         (if stored n key = JNull \<and> socials (attributes m) key \<noteq> None
          then attr_val (socials (attributes m) key) else stored n key)"
    unfolding needs_def by simp_all
  from Cons.prems(2) a have d: "distinct (map fst ups)" and fresh: "ref \<notin> fst ` set ups"
    by simp_all
  have none: "\<forall>b \<in> set ups. (objs(ref \<mapsto> n0)) (fst b) = None"
    using Cons.prems(3) fresh by auto
  from Cons.IH [OF rest d none] obtain W where
    W: "engine_notes e' = fold store_put W (engine_notes e1)" "fastMode e' = fastMode e1"
      "\<forall>w \<in> set W. \<exists>(ref, n, m) \<in> set ups.
            fname w = fname n \<and> custom w \<noteq> None \<and>
            (\<forall>key. stored w key =
               (if stored n key = JNull \<and> socials (attributes m) key \<noteq> None
                then attr_val (socials (attributes m) key) else stored n key))"
      "\<forall>(ref, n, m) \<in> set ups.
            custom n \<noteq> None \<and>
            ((\<exists>key. stored n key = JNull \<and> socials (attributes m) key \<noteq> None)
               \<longrightarrow> (\<exists>w \<in> set W. fname w = fname n))"
      "\<forall>k. k \<notin> fst ` set ups \<longrightarrow> objs' k = (objs(ref \<mapsto> n0)) k"
    by blast
  define W1 where "W1 = (if needs then [n0] else []) @ W"
  have s1: "engine_notes e' = fold store_put W1 (engine_notes e)"
    using W(1) e1 by (simp add: W1_def engine_notes_writeNote)
  have s2: "fastMode e' = fastMode e"
    using W(2) e1 by (simp add: engine_notes_writeNote)
  have s3: "\<exists>(ref', n', m') \<in> set (a # ups).
            fname w = fname n' \<and> custom w \<noteq> None \<and>
            (\<forall>key. stored w key =
               (if stored n' key = JNull \<and> socials (attributes m') key \<noteq> None
                then attr_val (socials (attributes m') key) else stored n' key))"
    if "w \<in> set W1" for w
  proof (cases "w \<in> set W")
    case True
    with W(3) show ?thesis by auto
  next
    case False
    with that have "w = n0" by (auto simp: W1_def split: if_splits)
    with n0 a show ?thesis by auto
  qed
  have s4: "custom n' \<noteq> None \<and>
            ((\<exists>key. stored n' key = JNull \<and> socials (attributes m') key \<noteq> None)
               \<longrightarrow> (\<exists>w \<in> set W1. fname w = fname n'))"
    if "(ref', n', m') \<in> set (a # ups)" for ref' n' m'
  proof (cases "(ref', n', m') \<in> set ups")
    case True
    with W(4) show ?thesis by (auto simp: W1_def)
  next
    case False
    with that a have "n' = n" "m' = m" by auto
    with c n0(1) show ?thesis by (auto simp: W1_def needs_def)
  qed
  have s5: "objs' k = objs k" if "k \<notin> fst ` set (a # ups)" for k
  proof -
    from that a have "k \<noteq> ref" "k \<notin> fst ` set ups" by auto
    with W(5) show ?thesis by simp
  qed
  from s1 s2 s3 s4 s5 show ?case by (intro exI [of _ W1]) blast
qed

lemma plan_update_mem:
  assumes "(ref, n, m') \<in> set (snd (snd (plan_member env config engine m)))"
  shows "ref = lookup_name config engine (cleanName (cleanFname env) m) \<and> m' = m \<and>
         lookupNote config engine (cleanName (cleanFname env) m) = Some n \<and>
         getConflictedData n m = []"
proof (cases "lookupNote config engine (cleanName (cleanFname env) m)")
  case None
  with assms show ?thesis by (simp add: plan_member_absent)
next
  case (Some found)
  with assms show ?thesis
    by (cases "getConflictedData found m = []")
       (simp_all add: plan_member_update plan_member_conflict)
qed

lemma plan_create_mem:
  assumes "w \<in> set (fst (snd (plan_member env config engine m)))"
  shows "w = NoteUtils_create (''people.'' @ cleanName (cleanFname env) m)
               (orbitData env m (frontmatter config)) []"
proof (cases "lookupNote config engine (cleanName (cleanFname env) m)")
  case None
  with assms show ?thesis by (simp add: plan_member_absent)
next
  case (Some found)
  with assms show ?thesis
    by (cases "getConflictedData found m = []")
       (simp_all add: plan_member_update plan_member_conflict)
qed



lemma synced_created:
  "synced (NoteUtils_create f (orbitData env m rest) b) m"
  by (rule synced_social)
     (simp_all add: NoteUtils_create_def orbitData_def social_of_def Let_def)

lemma synced_adopted:
  assumes "getConflictedData n m = []" and "custom w \<noteq> None"
    and "\<And>key. stored w key =
               (if stored n key = JNull \<and> socials (attributes m) key \<noteq> None
                then attr_val (socials (attributes m) key) else stored n key)"
  shows "synced w m"
  unfolding synced_iff
proof (intro conjI allI)
  show "custom w \<noteq> None" by fact
next
  fix key
  from assms(1) have "stored n key = JNull \<or> stored n key = JUndefined \<or>
            stored n key = attr_val (socials (attributes m) key)"
    by (simp add: conflict_free)
  with assms(3) [of key]
  show "stored w key = JUndefined \<or> stored w key = attr_val (socials (attributes m) key)"
    by (cases "socials (attributes m) key") auto
qed

lemma synced_untouched:
  assumes "getConflictedData n m = []" and "custom n \<noteq> None"
    and "\<not> (\<exists>key. stored n key = JNull \<and> socials (attributes m) key \<noteq> None)"
  shows "synced n m"
  unfolding synced_iff
proof (intro conjI allI)
  show "custom n \<noteq> None" by fact
next
  fix key
  from assms(1) have "stored n key = JNull \<or> stored n key = JUndefined \<or>
            stored n key = attr_val (socials (attributes m) key)"
    by (simp add: conflict_free)
  with assms(3)
  show "stored n key = JUndefined \<or> stored n key = attr_val (socials (attributes m) key)"
    by (cases "socials (attributes m) key") auto
qed

lemma drain_overwritten:
  assumes "handleConflict env = recording h"
  shows "drain env config queue e (d, a0) = (e', d', asked) \<Longrightarrow>
     \<exists>new. asked = a0 @ new \<and>
       ((\<forall>a \<in> set new. snd a = Some OVERWRITE_LOCAL) \<longrightarrow>
          engine_notes e' = fold store_put (map overwrite_entry queue) (engine_notes e) \<and>
          fastMode e' = fastMode e)"
proof (induction queue arbitrary: e d a0)
  case Nil
  then show ?case by simp
next
  case (Cons c queue)
  show ?case
  proof (cases "overwriteAll config")
    case True
    with Cons.prems have
      "drain env config queue (writeNote (overwrite_entry c) e) (d, a0) = (e', d', asked)"
      by simp
    from Cons.IH [OF this] show ?thesis by (simp add: engine_notes_writeNote)
  next
    case False
    obtain r d1 where h: "h (Some c) d = (r, d1)" by (cases "h (Some c) d")
    have ask: "(if overwriteAll config then (Some OVERWRITE_LOCAL, (d, a0))
                else handleConflict env (Some c) (d, a0))
               = (r, d1, a0 @ [(Some c, r)])"
      using assms h False by (simp add: recording_def)
    show ?thesis
    proof (cases "r = Some OVERWRITE_LOCAL")
      case True
      with Cons.prems ask have
        "drain env config queue (writeNote (overwrite_entry c) e) (d1, a0 @ [(Some c, r)])
           = (e', d', asked)"
        by simp
      from Cons.IH [OF this] obtain new where
        new: "asked = (a0 @ [(Some c, r)]) @ new"
          "(\<forall>a \<in> set new. snd a = Some OVERWRITE_LOCAL) \<longrightarrow>
             engine_notes e' = fold store_put (map overwrite_entry queue)
                                 (engine_notes (writeNote (overwrite_entry c) e)) \<and>
             fastMode e' = fastMode (writeNote (overwrite_entry c) e)"
        by blast
      then have "asked = a0 @ ((Some c, r) # new) \<and>
          ((\<forall>a \<in> set ((Some c, r) # new). snd a = Some OVERWRITE_LOCAL) \<longrightarrow>
             engine_notes e' = fold store_put (map overwrite_entry (c # queue)) (engine_notes e) \<and>
             fastMode e' = fastMode e)"
        by (simp add: engine_notes_writeNote)
      then show ?thesis by blast
    next
      case False
      have "\<exists>new. asked = a0 @ (Some c, r) # new"
      proof (cases "r = Some SKIP_ALL")
        case True
        with Cons.prems ask have "asked = a0 @ [(Some c, r)]" by simp
        then show ?thesis by simp
      next
        case skip: False
        with False Cons.prems ask have
          "drain env config queue e (d1, a0 @ [(Some c, r)]) = (e', d', asked)"
          by (cases r) (auto split: MergeConflictOptions.splits)
        from Cons.IH [OF this] show ?thesis by auto
      qed
      then obtain new where "asked = a0 @ (Some c, r) # new" by blast
      with False have "asked = a0 @ ((Some c, r) # new) \<and>
          ((\<forall>a \<in> set ((Some c, r) # new). snd a = Some OVERWRITE_LOCAL) \<longrightarrow>
             engine_notes e' = fold store_put (map overwrite_entry (c # queue)) (engine_notes e) \<and>
             fastMode e' = fastMode e)"
        by simp
      then show ?thesis by blast
    qed
  qed
qed

lemma engine_notes_bulkAddNotes:
  "engine_notes (bulkAddNotes ns e) = fold store_put ns (engine_notes e)"
  "fastMode (bulkAddNotes ns e) = fastMode e"
  by (simp_all add: bulkAddNotes_def)

lemma plantMembers_drain:
  assumes "membersToNotes env config engine members = (Inr (create, conflicts), engine1)"
    and "plantMembers env config members engine d = (res, engine', d')"
  shows "drain env config conflicts (bulkAddNotes create engine1) d = (engine', d') \<and>
         res = Inr (create @ map conflictNote conflicts)"
proof (cases "conflicts = []")
  case True
  with assms show ?thesis by (simp add: plantMembers_def)
next
  case False
  then have "0 < length conflicts" by simp
  from onConflict_drain [OF this, of env config "map conflictNote conflicts"
      "bulkAddNotes create engine1" d] assms False
  show ?thesis by (auto simp: plantMembers_def Let_def split: prod.splits)
qed

lemma plantMembers_planned:
  assumes "plantMembers env config members engine d = (Inr out, engine', d')"
  shows "\<exists>create conflicts engine1.
           membersToNotes env config engine members = (Inr (create, conflicts), engine1)"
proof -
  obtain r e1 where m: "membersToNotes env config engine members = (r, e1)"
    by (cases "membersToNotes env config engine members")
  show ?thesis
  proof (cases r)
    case (Inl x)
    with m assms show ?thesis by (simp add: plantMembers_def)
  next
    case (Inr p)
    with m show ?thesis by (cases p) simp
  qed
qed


lemma updateNoteData_synced:
  assumes "synced n m"
  shows "\<exists>n'. updateNoteData n m e = (Inr n', e)"
proof -
  from assms obtain c where c: "custom n = Some c" by (auto simp: synced_iff)
  have "\<not> (\<exists>key. stored n key = JNull \<and> socials (attributes m) key \<noteq> None)"
  proof
    assume "\<exists>key. stored n key = JNull \<and> socials (attributes m) key \<noteq> None"
    then obtain key where k: "stored n key = JNull" "socials (attributes m) key \<noteq> None"
      by blast
    from assms have "stored n key = JUndefined \<or>
        stored n key = attr_val (socials (attributes m) key)"
      by (simp add: synced_iff)
    with k show False by (cases "socials (attributes m) key") auto
  qed
  with updateNoteData_result [OF c, of m e] show ?thesis by auto
qed


section \<open>The output of a run\<close>


lemmas run_defs =
  plantMembers_def membersToNotes_def member_step_def update_all_def update_step_def deref_def
  lookupNote_def lookup_name_def
  getNoteByFnameV5_def getNoteByFile_def cleanName_def js_or_def js_or_str_def
  getNameFromEmail_def example_env_def env_with_def example_config_def example_engine_def
  bob_new_def bob_tw_def carol_def member_of_def getConflictedData_def bob_old_note_def note_of_def
  bag_get_def SocialKeys_values_def custom_other_def spread_def Let_def
  onConflict.simps resolve_def scripted_def recording_def bulkAddNotes_def writeNote_def
  store_put_def overwrite_entry_def NoteUtils_create_def orbitData_def getSocialAttributes_def
  bag_set_def updateNoteData_def adopt_def







lemma shared_note_written_once:
  "membersToNotes example_env (example_config ''ws'')
     (example_engine [(''people.bob'', bob_old_note)]) [bob_tw, bob_tw]
   = (Inr ([], []), writeNote bob_adopted (example_engine [(''people.bob'', bob_old_note)]))"
  by (simp add: bob_adopted_def run_defs)


section \<open>Running the pipeline twice\<close>

lemma update_key_of_plan:
  "map fst (snd (snd (plan_member env config engine m))) =
     (if \<exists>n. lookupNote config engine (cleanName (cleanFname env) m) = Some n \<and>
              getConflictedData n m = []
      then [lookup_name config engine (cleanName (cleanFname env) m)] else [])"
proof (cases "lookupNote config engine (cleanName (cleanFname env) m)")
  case None
  then show ?thesis by (simp add: plan_member_absent)
next
  case (Some found)
  then show ?thesis
    by (cases "getConflictedData found m = []")
       (simp_all add: plan_member_update plan_member_conflict)
qed

lemma distinct_update_keys:
  assumes "distinct (map (\<lambda>m. lookup_name config engine (cleanName (cleanFname env) m)) members)"
  shows "distinct (map fst
           (concat (map (\<lambda>m. snd (snd (plan_member env config engine m))) members)))"
proof -
  have "map fst (concat (map (\<lambda>m. snd (snd (plan_member env config engine m))) members)) =
        map (\<lambda>m. lookup_name config engine (cleanName (cleanFname env) m))
          (filter (\<lambda>m. \<exists>n. lookupNote config engine (cleanName (cleanFname env) m) = Some n \<and>
                            getConflictedData n m = []) members)"
    by (rule map_concat_if) (rule update_key_of_plan)
  with assms show ?thesis by (simp add: distinct_map_filter)
qed

lemma membersToNotes_distinct:
  assumes "membersToNotes env config engine members = (Inr (create, conflicts), engine1)"
    and "distinct (map (\<lambda>m. lookup_name config engine (cleanName (cleanFname env) m)) members)"
  shows "conflicts = map snd (concat (map (\<lambda>m. fst (plan_member env config engine m)) members)) \<and>
         (\<exists>objs. fold update_step
                    (concat (map (\<lambda>m. snd (snd (plan_member env config engine m))) members))
                    (None, Map.empty, engine) = (None, objs, engine1))"
proof -
  define key where "key = (\<lambda>m. lookup_name config engine (cleanName (cleanFname env) m))"
  define planned where
    "planned = concat (map (\<lambda>m. fst (plan_member env config engine m)) members)"
  define ups where
    "ups = concat (map (\<lambda>m. snd (snd (plan_member env config engine m))) members)"
  from membersToNotes_buckets [OF assms(1)] obtain objs where
    cs: "conflicts = map (\<lambda>(ref, c). c\<lparr>conflictNote := deref objs ref (conflictNote c)\<rparr>) planned"
    and upd: "update_all ups engine = (None, objs, engine1)"
    unfolding planned_def ups_def by blast
  from upd have run: "fold update_step ups (None, Map.empty, engine) = (None, objs, engine1)"
    by (simp add: update_all_def)
  from assms(2) have inj: "inj_on key (set members)"
    by (simp add: distinct_map key_def)
  have dups: "distinct (map fst ups)"
    unfolding ups_def using assms(2) by (rule distinct_update_keys)
  have none: "\<forall>a \<in> set ups. Map.empty (fst a) = None" by simp
  from update_fold_ok [OF run dups none] have
    same: "\<forall>k. k \<notin> fst ` set ups \<longrightarrow> objs k = None" by auto
  have untouched: "deref objs ref (conflictNote c0) = conflictNote c0"
    if "(ref, c0) \<in> set planned" for ref c0
  proof -
    from that obtain m where m: "m \<in> set members"
      "(ref, c0) \<in> set (fst (plan_member env config engine m))"
      by (auto simp: planned_def)
    from conflict_entry [OF m(2)] have ref: "ref = key m" by (simp add: key_def)
    have "ref \<notin> fst ` set ups"
    proof
      assume "ref \<in> fst ` set ups"
      then obtain n m' where "(ref, n, m') \<in> set ups" by force
      then obtain m2 where m2: "m2 \<in> set members"
        "(ref, n, m') \<in> set (snd (snd (plan_member env config engine m2)))"
        by (auto simp: ups_def)
      from plan_update_mem [OF m2(2)] have
        u: "ref = key m2" "lookupNote config engine (cleanName (cleanFname env) m2) = Some n"
          "getConflictedData n m2 = []"
        by (simp_all add: key_def)
      from ref u(1) have "key m2 = key m" by simp
      from inj_onD [OF inj this m2(1) m(1)] have "m2 = m" .
      with plan_member_update [OF u(2,3)] m(2) show False by simp
    qed
    with same have "objs ref = None" by blast
    then show ?thesis by (simp add: deref_def)
  qed
  have "map (\<lambda>(ref, c). c\<lparr>conflictNote := deref objs ref (conflictNote c)\<rparr>) planned
          = map snd planned"
    by (rule map_cong) (auto simp: untouched)
  with cs run show ?thesis unfolding planned_def ups_def by blast
qed

lemma plant_store:
  assumes named: "\<forall>k n. engine_notes engine k = Some n \<longrightarrow> fname n = k"
    and rec: "handleConflict env = recording h"
    and run: "plantMembers env config members engine (d, []) = (Inr out, engine1, d1, asked)"
    and ow: "\<forall>a \<in> set asked. snd a = Some OVERWRITE_LOCAL"
    and dist: "distinct (map (\<lambda>m. lookup_name config engine (cleanName (cleanFname env) m))
                 members)"
  shows "\<exists>W. engine_notes engine1 = fold store_put W (engine_notes engine) \<and>
             fastMode engine1 = fastMode engine \<and>
             (\<forall>w \<in> set W. \<exists>m \<in> set members. synced w m \<and>
                (fname w = lookup_name config engine (cleanName (cleanFname env) m) \<or>
                 fname w = ''people.'' @ cleanName (cleanFname env) m)) \<and>
             (\<forall>m \<in> set members. \<forall>n.
                engine_notes engine (lookup_name config engine (cleanName (cleanFname env) m))
                  = Some n \<longrightarrow>
                (\<exists>w \<in> set W. fname w = fname n) \<or> synced n m)"
proof -
  define key where "key = (\<lambda>m. lookup_name config engine (cleanName (cleanFname env) m))"
  from named have wf: "fname n = k" if "engine_notes engine k = Some n" for k n
    using that by blast
  have found: "lookupNote config engine (cleanName (cleanFname env) m) = engine_notes engine (key m)"
    for m by (simp add: key_def lookupNote_store)
  from plantMembers_planned [OF run] obtain create conflicts ea where
    plan: "membersToNotes env config engine members = (Inr (create, conflicts), ea)" by blast
  define planned where
    "planned = concat (map (\<lambda>m. fst (plan_member env config engine m)) members)"
  define ups where
    "ups = concat (map (\<lambda>m. snd (snd (plan_member env config engine m))) members)"
  from membersToNotes_distinct [OF plan dist] obtain objs where
    cs: "conflicts = map snd planned"
    and upd: "fold update_step ups (None, Map.empty, engine) = (None, objs, ea)"
    unfolding planned_def ups_def by blast
  have created: "create = concat (map (\<lambda>m. fst (snd (plan_member env config engine m))) members)"
    using plan by (rule membersToNotes_create)
  have dups: "distinct (map fst ups)"
    unfolding ups_def using dist by (rule distinct_update_keys)
  have none: "\<forall>a \<in> set ups. Map.empty (fst a) = None" by simp
  from update_fold_ok [OF upd dups none] obtain Wu where
    Wu: "engine_notes ea = fold store_put Wu (engine_notes engine)" "fastMode ea = fastMode engine"
      "\<forall>w \<in> set Wu. \<exists>(ref, n, m) \<in> set ups.
            fname w = fname n \<and> custom w \<noteq> None \<and>
            (\<forall>key. stored w key =
               (if stored n key = JNull \<and> socials (attributes m) key \<noteq> None
                then attr_val (socials (attributes m) key) else stored n key))"
      "\<forall>(ref, n, m) \<in> set ups.
            custom n \<noteq> None \<and>
            ((\<exists>key. stored n key = JNull \<and> socials (attributes m) key \<noteq> None)
               \<longrightarrow> (\<exists>w \<in> set Wu. fname w = fname n))"
    by blast
  from plantMembers_drain [OF plan run]
  have "drain env config conflicts (bulkAddNotes create ea) (d, []) = (engine1, d1, asked)"
    by simp
  from drain_overwritten [OF rec this] ow have
    e1: "engine_notes engine1
           = fold store_put (map overwrite_entry conflicts) (fold store_put create (engine_notes ea))"
    and f1: "fastMode engine1 = fastMode ea"
    by (simp_all add: engine_notes_bulkAddNotes)
  define W where "W = Wu @ create @ map overwrite_entry conflicts"
  have store: "engine_notes engine1 = fold store_put W (engine_notes engine)"
    using e1 Wu(1) by (simp add: W_def)
  have fast: "fastMode engine1 = fastMode engine" using f1 Wu(2) by simp
  have in_ups: "m \<in> set members \<and> engine_notes engine (key m) = Some n \<and>
                getConflictedData n m = []" if "(ref, n, m) \<in> set ups" for ref n m
  proof -
    from that obtain m0 where "m0 \<in> set members"
      "(ref, n, m) \<in> set (snd (snd (plan_member env config engine m0)))"
      by (auto simp: ups_def)
    with plan_update_mem [OF this(2)] found show ?thesis by auto
  qed
  have owner: "\<exists>m \<in> set members. synced w m \<and>
                (fname w = key m \<or> fname w = ''people.'' @ cleanName (cleanFname env) m)"
    if "w \<in> set W" for w
  proof -
    from that consider (u) "w \<in> set Wu" | (c) "w \<in> set create"
      | (o) "w \<in> set (map overwrite_entry conflicts)"
      by (auto simp: W_def)
    then show ?thesis
    proof cases
      case u
      with Wu(3) obtain ref n m where nm: "(ref, n, m) \<in> set ups" "fname w = fname n"
        "custom w \<noteq> None"
        "\<And>key. stored w key =
               (if stored n key = JNull \<and> socials (attributes m) key \<noteq> None
                then attr_val (socials (attributes m) key) else stored n key)"
        by fast
      from in_ups [OF nm(1)] have m: "m \<in> set members" "engine_notes engine (key m) = Some n"
        "getConflictedData n m = []" by simp_all
      from wf [OF m(2)] nm(2) have "fname w = key m" by simp
      moreover from synced_adopted [OF m(3) nm(3) nm(4)] have "synced w m" .
      ultimately show ?thesis using m(1) by blast
    next
      case c
      with created obtain m where m: "m \<in> set members"
        "w \<in> set (fst (snd (plan_member env config engine m)))" by auto
      from plan_create_mem [OF m(2)] have
        w: "w = NoteUtils_create (''people.'' @ cleanName (cleanFname env) m)
               (orbitData env m (frontmatter config)) []" .
      then have "fname w = ''people.'' @ cleanName (cleanFname env) m"
        by (simp add: NoteUtils_create_def)
      moreover from w have "synced w m" by (simp add: synced_created)
      ultimately show ?thesis using m(1) by blast
    next
      case o
      then obtain c where c: "c \<in> set conflicts" "w = overwrite_entry c" by auto
      with cs obtain ref where "(ref, c) \<in> set planned" by auto
      then obtain m where m: "m \<in> set members"
        "(ref, c) \<in> set (fst (plan_member env config engine m))"
        by (auto simp: planned_def)
      from conflict_entry [OF m(2)] found have
        ce: "engine_notes engine (key m) = Some (conflictNote c)"
          "social_of (conflictEntry c) = Some (getSocialAttributes m)" by simp_all
      from wf [OF ce(1)] c(2) have "fname w = key m" by (simp add: overwrite_entry_def)
      moreover have "synced w m"
      proof (rule synced_social)
        from ce(2) show "custom w \<noteq> None"
          by (auto simp: c(2) overwrite_entry_def social_of_def split: option.splits)
        from ce(2) show "social_of w = Some (getSocialAttributes m)"
          by (simp add: c(2) overwrite_entry_def social_of_def)
      qed
      ultimately show ?thesis using m(1) by blast
    qed
  qed
  have kept: "(\<exists>w \<in> set W. fname w = fname n) \<or> synced n m"
    if m: "m \<in> set members" and n: "engine_notes engine (key m) = Some n" for m n
  proof (cases "getConflictedData n m = []")
    case True
    from n found have "lookupNote config engine (cleanName (cleanFname env) m) = Some n"
      by simp
    from plan_member_update [OF this True] m have nm: "(key m, n, m) \<in> set ups"
      by (auto simp: ups_def key_def intro!: bexI [of _ m])
    with Wu(4) have c: "custom n \<noteq> None"
      and w: "(\<exists>key. stored n key = JNull \<and> socials (attributes m) key \<noteq> None)
               \<longrightarrow> (\<exists>w \<in> set Wu. fname w = fname n)"
      by fast+
    show ?thesis
    proof (cases "\<exists>key. stored n key = JNull \<and> socials (attributes m) key \<noteq> None")
      case True
      with w show ?thesis by (auto simp: W_def)
    next
      case False
      from synced_untouched [OF \<open>getConflictedData n m = []\<close> c False] show ?thesis by simp
    qed
  next
    case False
    from n found have "lookupNote config engine (cleanName (cleanFname env) m) = Some n"
      by simp
    from plan_member_conflict [OF this False]
    have "\<exists>c. fst (plan_member env config engine m) = [(key m, c)] \<and> conflictNote c = n"
      by (simp add: key_def)
    then obtain c where c: "fst (plan_member env config engine m) = [(key m, c)]"
      "conflictNote c = n"
      by blast
    from c(1) have "(key m, c) \<in> set (fst (plan_member env config engine m))" by simp
    with m have "(key m, c) \<in> set planned" unfolding planned_def by auto
    then have "c \<in> set conflicts" unfolding cs by force
    note this c(2)
    then have "overwrite_entry c \<in> set W" "fname (overwrite_entry c) = fname n"
      by (auto simp: W_def overwrite_entry_def)
    then show ?thesis by blast
  qed
  from store fast owner kept show ?thesis
    unfolding key_def by (intro exI [of _ W]) blast
qed

lemma update_fold_synced:
  "distinct (map fst ups) \<Longrightarrow> \<forall>a \<in> set ups. objs (fst a) = None \<Longrightarrow>
   (\<And>ref n m. (ref, n, m) \<in> set ups \<Longrightarrow> synced n m) \<Longrightarrow>
   \<exists>objs'. fold update_step ups (None, objs, e) = (None, objs', e)"
proof (induction ups arbitrary: objs)
  case Nil
  then show ?case by simp
next
  case (Cons a ups)
  obtain ref n m where a: "a = (ref, n, m)" by (cases a)
  from Cons.prems(2) a have "objs ref = None" by simp
  then have cur: "deref objs ref n = n" by (simp add: deref_def)
  from Cons.prems(3) [of ref n m] a have "synced n m" by simp
  from updateNoteData_synced [OF this, of e] obtain n' where
    "updateNoteData n m e = (Inr n', e)" by blast
  with cur have step: "update_step a (None, objs, e) = (None, objs(ref \<mapsto> n'), e)"
    by (simp add: a update_step_Inr)
  from Cons.prems(1) a have d: "distinct (map fst ups)" and fresh: "ref \<notin> fst ` set ups"
    by simp_all
  have none: "\<forall>b \<in> set ups. (objs(ref \<mapsto> n')) (fst b) = None"
    using Cons.prems(2) fresh by auto
  have rest: "synced n2 m2" if "(ref2, n2, m2) \<in> set ups" for ref2 n2 m2
    using Cons.prems(3) [of ref2 n2 m2] that by simp
  have "\<exists>objs'. fold update_step ups (None, objs(ref \<mapsto> n'), e) = (None, objs', e)"
    using d none by (rule Cons.IH) (rule rest)
  then obtain objs' where
    "fold update_step ups (None, objs(ref \<mapsto> n'), e) = (None, objs', e)" by blast
  with step show ?case by simp
qed

lemma quiet_plan:
  assumes "\<And>m x. m \<in> set members \<Longrightarrow>
             lookupNote config engine (cleanName (cleanFname env) m) = Some x \<Longrightarrow> synced x m"
    and "distinct (map (\<lambda>m. lookup_name config engine (cleanName (cleanFname env) m)) members)"
  shows "\<exists>create. membersToNotes env config engine members = (Inr (create, []), engine)"
proof -
  have none: "fst (plan_member env config engine m) = []" if "m \<in> set members" for m
  proof (cases "lookupNote config engine (cleanName (cleanFname env) m)")
    case None
    then show ?thesis by (simp add: plan_member_absent)
  next
    case (Some x)
    from assms(1) [OF that Some] have "getConflictedData x m = []"
      by (auto simp: synced_iff conflict_free)
    with Some show ?thesis by (simp add: plan_member_update)
  qed
  have sync: "synced n m'"
    if "m \<in> set members" "(ref, n, m') \<in> set (snd (snd (plan_member env config engine m)))"
    for m ref n m'
    using plan_update_mem [OF that(2)] assms(1) [OF that(1)] by simp
  have conflicts: "concat (map (\<lambda>m. fst (plan_member env config engine m)) members) = []"
    using none by simp
  have "\<exists>objs'. fold update_step
          (concat (map (\<lambda>m. snd (snd (plan_member env config engine m))) members))
          (None, Map.empty, engine) = (None, objs', engine)"
  proof (rule update_fold_synced)
    show "distinct (map fst
            (concat (map (\<lambda>m. snd (snd (plan_member env config engine m))) members)))"
      using assms(2) by (rule distinct_update_keys)
  qed (auto dest: sync)
  with conflicts show ?thesis
    by (auto simp: membersToNotes_def fold_member_step update_all_def)
qed

text \<open>
  C7 (as amended). Let a first run, with its decisions recorded, return no decision other
  than \<open>OVERWRITE_LOCAL\<close> (so also when it queues no conflict, or runs with
  \<open>overwriteAll\<close>), over records that are looked up under pairwise different names in a
  store that returns under each name a node of that name. Then a second run on the same
  records over the store the first run left plans zero conflict entries and issues zero
  update commits: planning leaves the engine as it is, and the whole second run issues
  nothing but its batch create and asks no question.
\<close>

theorem second_run_is_quiet:
  assumes "handleConflict env = recording h"
    and "plantMembers env config members engine (d, []) = (Inr out, engine1, d1, asked)"
    and "\<forall>a \<in> set asked. snd a = Some OVERWRITE_LOCAL"
    and "distinct (map (\<lambda>m. lookup_name config engine (cleanName (cleanFname env) m)) members)"
    and "\<forall>k n. engine_notes engine k = Some n \<longrightarrow> fname n = k"
    and "cleanFname env2 = cleanFname env"
  shows "\<exists>create2.
           membersToNotes env2 config engine1 members = (Inr (create2, []), engine1) \<and>
           plantMembers env2 config members engine1 d2
             = (Inr create2, bulkAddNotes create2 engine1, d2)"
proof -
  let ?key = "\<lambda>m. lookup_name config engine (cleanName (cleanFname env) m)"
  from plant_store [OF assms(5) assms(1) assms(2) assms(3) assms(4)] obtain W where
    W: "engine_notes engine1 = fold store_put W (engine_notes engine) \<and>
             fastMode engine1 = fastMode engine \<and>
             (\<forall>w \<in> set W. \<exists>m \<in> set members. synced w m \<and>
                (fname w = lookup_name config engine (cleanName (cleanFname env) m) \<or>
                 fname w = ''people.'' @ cleanName (cleanFname env) m)) \<and>
             (\<forall>m \<in> set members. \<forall>n.
                engine_notes engine (lookup_name config engine (cleanName (cleanFname env) m))
                  = Some n \<longrightarrow>
                (\<exists>w \<in> set W. fname w = fname n) \<or> synced n m)"
    by (elim exE)
  from W have store: "engine_notes engine1 = fold store_put W (engine_notes engine)"
    by (rule conjunct1)
  from W have fast: "fastMode engine1 = fastMode engine"
    by (elim conjE)
  from W have owner: "\<forall>w \<in> set W. \<exists>m \<in> set members. synced w m \<and>
                (fname w = ?key m \<or> fname w = ''people.'' @ cleanName (cleanFname env) m)"
    by (elim conjE)
  from W have kept: "\<forall>m \<in> set members. \<forall>n. engine_notes engine (?key m) = Some n \<longrightarrow>
                (\<exists>w \<in> set W. fname w = fname n) \<or> synced n m"
    by (elim conjE)
  from assms(4) have inj: "inj_on ?key (set members)"
    by (simp add: distinct_map)
  have same_key: "?key m' = ?key m"
    if "fname w = ?key m' \<or> fname w = ''people.'' @ cleanName (cleanFname env) m'"
      and "fname w = ?key m" for w m m'
  proof -
    from lookup_name_cases [of config engine] show ?thesis
    proof
      assume "\<forall>noteName. lookup_name config engine noteName = ''people.'' @ noteName"
      then have "?key m' = ''people.'' @ cleanName (cleanFname env) m'" by simp
      with that show ?thesis by auto
    next
      assume "\<exists>d. \<forall>noteName. lookup_name config engine noteName = d"
      then obtain d0 where "\<And>noteName. lookup_name config engine noteName = d0" by blast
      then show ?thesis by simp
    qed
  qed
  have "synced x m"
    if m: "m \<in> set members"
      and x: "lookupNote config engine1 (cleanName (cleanFname env2) m) = Some x" for m x
  proof -
    have "lookup_name config engine1 (cleanName (cleanFname env) m) = ?key m"
      using fast by (rule lookup_name_fastMode)
    with x have "engine_notes engine1 (?key m) = Some x"
      by (simp add: lookupNote_store assms(6))
    with store have "fold store_put W (engine_notes engine) (?key m) = Some x" by simp
    from fold_store_put [OF this] show ?thesis
    proof
      assume w: "x \<in> set W \<and> fname x = ?key m"
      then have "x \<in> set W" by simp
      from owner this have "\<exists>m' \<in> set members. synced x m' \<and>
                (fname x = ?key m' \<or> fname x = ''people.'' @ cleanName (cleanFname env) m')"
        by (rule bspec)
      then obtain m' where m': "m' \<in> set members" "synced x m'"
        "fname x = ?key m' \<or> fname x = ''people.'' @ cleanName (cleanFname env) m'"
        by blast
      from w have "fname x = ?key m" by simp
      from same_key [OF m'(3) this] have "?key m' = ?key m" .
      from inj_onD [OF inj this m'(1) m] have "m' = m" .
      with m'(2) show ?thesis by simp
    next
      assume old: "engine_notes engine (?key m) = Some x \<and> (\<forall>w \<in> set W. fname w \<noteq> ?key m)"
      then have o1: "engine_notes engine (?key m) = Some x"
        and o2: "\<forall>w \<in> set W. fname w \<noteq> ?key m" by simp_all
      from assms(5) o1 have fx: "fname x = ?key m" by blast
      from kept m o1 have "(\<exists>w \<in> set W. fname w = fname x) \<or> synced x m" by blast
      then show ?thesis
      proof
        assume "\<exists>w \<in> set W. fname w = fname x"
        with o2 fx show ?thesis by auto
      qed
    qed
  qed
  then have quiet: "\<And>m x. m \<in> set members \<Longrightarrow>
      lookupNote config engine1 (cleanName (cleanFname env2) m) = Some x \<Longrightarrow> synced x m" .
  have "(\<lambda>m. lookup_name config engine1 (cleanName (cleanFname env2) m)) = ?key"
    using fast by (simp add: lookup_name_def assms(6))
  with assms(4) have
    "distinct (map (\<lambda>m. lookup_name config engine1 (cleanName (cleanFname env2) m)) members)"
    by simp
  from quiet_plan [of members config engine1 env2, OF quiet this] obtain create2 where
    plan: "membersToNotes env2 config engine1 members = (Inr (create2, []), engine1)"
    by blast
  then have "plantMembers env2 config members engine1 d2
             = (Inr create2, bulkAddNotes create2 engine1, d2)"
    by (simp add: plantMembers_def)
  with plan show ?thesis by blast
qed

lemma first_run_output:
  "fst first_run
     = Inr [NoteUtils_create ''people.carol''
              (orbitData (env_with (recording scripted)) carol []) [], bob_old_note] \<and>
   map snd (snd (snd (snd first_run))) = [Some OVERWRITE_LOCAL]"
  by (simp add: first_run_def run_defs)

theorem second_run_is_quiet_counterexample:
  "fst skip_run = Inr [bob_old_note] \<and>
   map conflictData
     (snd (projr (fst (membersToNotes example_env (example_config ''ws'') (fst (snd skip_run))
                         [bob_new]))))
     = [[github]]"
  by (simp add: skip_run_def run_defs)

theorem second_run_is_quiet_witness:
  "\<exists>create2.
     membersToNotes example_env (example_config ''ws'') (fst (snd first_run)) [bob_new, carol]
       = (Inr (create2, []), fst (snd first_run)) \<and>
     plantMembers example_env (example_config ''ws'') [bob_new, carol] (fst (snd first_run)) []
       = (Inr create2, bulkAddNotes create2 (fst (snd first_run)), [])"
proof -
  have h1: "handleConflict (env_with (recording scripted)) = recording scripted"
    by (simp add: env_with_def)
  have h2: "plantMembers (env_with (recording scripted)) (example_config ''ws'')
              [bob_new, carol] (example_engine [(''people.bob'', bob_old_note)])
              ([Some OVERWRITE_LOCAL], [])
            = (Inr [NoteUtils_create ''people.carol''
                      (orbitData (env_with (recording scripted)) carol []) [], bob_old_note],
               fst (snd first_run), fst (snd (snd first_run)), snd (snd (snd first_run)))"
    using first_run_output by (simp add: first_run_def prod_eq_iff)
  have h3: "\<forall>a \<in> set (snd (snd (snd first_run))). snd a = Some OVERWRITE_LOCAL"
  proof
    fix a assume "a \<in> set (snd (snd (snd first_run)))"
    then have "snd a \<in> set (map snd (snd (snd (snd first_run))))" by simp
    with first_run_output show "snd a = Some OVERWRITE_LOCAL" by simp
  qed
  have h4: "distinct (map (\<lambda>m. lookup_name (example_config ''ws'')
                (example_engine [(''people.bob'', bob_old_note)])
                (cleanName (cleanFname (env_with (recording scripted))) m)) [bob_new, carol])"
    by (simp add: lookup_name_def example_engine_def cleanName_def js_or_def js_or_str_def
          getNameFromEmail_def env_with_def bob_new_def carol_def member_of_def Let_def)
  have h5: "\<forall>k n. engine_notes (example_engine [(''people.bob'', bob_old_note)]) k = Some n
              \<longrightarrow> fname n = k"
    by (simp add: example_engine_def bob_old_note_def note_of_def)
  have h6: "cleanFname example_env = cleanFname (env_with (recording scripted))"
    by (simp add: example_env_def env_with_def)
  from second_run_is_quiet [OF h1 h2 h3 h4 h5 h6, of "[]"] show ?thesis .
qed

end
